theory Spec2Isabelle
  imports Main "HOL-Library.Word"
begin

unbundle bit_operations_syntax

section \<open>Data model\<close>

type_synonym byte = "8 word"
type_synonym bytes = "byte list"

text \<open>\<^verbatim>\<open>internal.StatusCode\<close> is a 16-bit close code (\<^verbatim>\<open>internal.StatusCode(realCode)\<close>
  converts a \<^verbatim>\<open>uint16\<close>).\<close>

type_synonym StatusCode = "16 word"

text \<open>Modelled from the spec: the constants of package \<^verbatim>\<open>internal\<close>, which is not part of
  the sources at hand. The spec names them NormalClosure, ProtocolError, UnsupportedData and
  MessageTooLarge; the numbers are the close codes of RFC 6455, to which the spec refers.\<close>

definition CloseNormalClosure :: StatusCode where
  "CloseNormalClosure = 1000"

definition CloseProtocolError :: StatusCode where
  "CloseProtocolError = 1002"

definition CloseUnsupportedData :: StatusCode where
  "CloseUnsupportedData = 1003"

definition CloseMessageTooLarge :: StatusCode where
  "CloseMessageTooLarge = 1009"

text \<open>Modelled from the spec: type \<^verbatim>\<open>Opcode\<close> and \<^verbatim>\<open>Opcode.isDataFrame\<close> are declared outside
  src/. The glossary lists the six frame purposes; a data frame opcode is text or binary
  (section 4.1).\<close>

datatype Opcode =
  OpcodeContinuation | OpcodeText | OpcodeBinary | OpcodeCloseConnection | OpcodePing | OpcodePong

fun isDataFrame :: "Opcode \<Rightarrow> bool" where
  "isDataFrame OpcodeText = True"
| "isDataFrame OpcodeBinary = True"
| "isDataFrame _ = False"

text \<open>Go's \<^verbatim>\<open>error\<close> values that the code builds or inspects. \<^verbatim>\<open>emitError\<close> switches on the
  dynamic type: an \<^verbatim>\<open>internal.StatusCode\<close>, an \<^verbatim>\<open>*internal.Error\<close> (a code and a cause), or
  anything else. \<^verbatim>\<open>CloseError\<close> is what \<^verbatim>\<open>emitClose\<close> hands to the close callback.\<close>

datatype error =
    StatusCodeErr StatusCode
  | InternalError StatusCode error
  | GwsError bytes
  | ErrConnClosed
  | ErrTextEncoding
  | ErrorString bytes
  | CloseError "16 word" bytes

record Config =
  CheckUtf8Enabled :: bool
  CompressThreshold :: int
  WriteMaxPayloadSize :: int

section \<open>UTF-8 validity\<close>

text \<open>\<^verbatim>\<open>utf8.Valid\<close> of the Go standard library: the byte sequence consists of well-formed
  UTF-8 encodings only (no overlong forms, no surrogates, nothing above U+10FFFF).\<close>

definition isCont :: "byte \<Rightarrow> bool" where
  "isCont b = (0x80 \<le> b \<and> b \<le> 0xBF)"

fun utf8_Valid :: "bytes \<Rightarrow> bool" where
  "utf8_Valid [] = True"
| "utf8_Valid (b0 # rest) =
     (if b0 < 0x80 then utf8_Valid rest
      else if 0xC2 \<le> b0 \<and> b0 \<le> 0xDF then
        (case rest of
           b1 # r \<Rightarrow> isCont b1 \<and> utf8_Valid r
         | _ \<Rightarrow> False)
      else if 0xE0 \<le> b0 \<and> b0 \<le> 0xEF then
        (case rest of
           b1 # b2 # r \<Rightarrow>
             (if b0 = 0xE0 then 0xA0 \<le> b1 \<and> b1 \<le> 0xBF
              else if b0 = 0xED then 0x80 \<le> b1 \<and> b1 \<le> 0x9F
              else isCont b1) \<and> isCont b2 \<and> utf8_Valid r
         | _ \<Rightarrow> False)
      else if 0xF0 \<le> b0 \<and> b0 \<le> 0xF4 then
        (case rest of
           b1 # b2 # b3 # r \<Rightarrow>
             (if b0 = 0xF0 then 0x90 \<le> b1 \<and> b1 \<le> 0xBF
              else if b0 = 0xF4 then 0x80 \<le> b1 \<and> b1 \<le> 0x8F
              else isCont b1) \<and> isCont b2 \<and> isCont b3 \<and> utf8_Valid r
         | _ \<Rightarrow> False)
      else False)"

section \<open>conn.go\<close>

text \<open>\<^verbatim>\<open>isTextValid\<close> reads only the configuration of the connection.\<close>

definition isTextValid :: "Config \<Rightarrow> Opcode \<Rightarrow> bytes \<Rightarrow> bool" where
  "isTextValid cfg opcode payload =
     (if \<not> CheckUtf8Enabled cfg then True
      else (case opcode of
              OpcodeText \<Rightarrow> utf8_Valid payload
            | OpcodeCloseConnection \<Rightarrow> utf8_Valid payload
            | _ \<Rightarrow> True))"

text \<open>\<^verbatim>\<open>binary.BigEndian.Uint16\<close> on the first two bytes of a buffer.\<close>

definition BigEndian_Uint16 :: "byte \<Rightarrow> byte \<Rightarrow> 16 word" where
  "BigEndian_Uint16 b0 b1 = push_bit 8 (ucast b0) OR ucast b1"

text \<open>The first half of \<^verbatim>\<open>emitClose\<close> (the two switches): from the payload of the peer's
  close frame to the response code, the code the peer sent, and what is left in the buffer
  (the reason). The buffer is reset in the one-byte case and loses its first two bytes in the
  default case.\<close>

definition emitClose_codes :: "Config \<Rightarrow> bytes \<Rightarrow> StatusCode \<times> 16 word \<times> bytes" where
  "emitClose_codes cfg buf =
     (case buf of
        [] \<Rightarrow> (0, 0, [])
      | [b] \<Rightarrow> (CloseProtocolError, ucast b, [])
      | b0 # b1 # rest \<Rightarrow>
          (let realCode = BigEndian_Uint16 b0 b1;
               responseCode =
                 (if realCode \<in> {1004, 1005, 1006, 1014, 1015} then CloseProtocolError
                  else if realCode < 1000 \<or> realCode \<ge> 5000 \<or> (realCode \<ge> 1016 \<and> realCode < 3000)
                    then CloseProtocolError
                  else if realCode < 1016 then CloseNormalClosure
                  else realCode);
               responseCode' =
                 (if \<not> isTextValid cfg OpcodeCloseConnection rest then CloseUnsupportedData
                  else responseCode)
           in (responseCode', realCode, rest)))"


section \<open>Collaborators that live outside src/\<close>

text \<open>A \<^verbatim>\<open>*bytes.Buffer\<close>: the identity of the buffer and the bytes it holds.\<close>

record Buffer =
  buf_id :: nat
  contents :: bytes

text \<open>Modelled from the spec: the buffer pool \<^verbatim>\<open>myBufferPool\<close> (section 2: reusable byte
  buffers handed out together with a release token; section 3: one release per acquisition).
  \<^verbatim>\<open>Get\<close> hands out a buffer nobody else holds and a token; both calls are recorded, so that
  acquisitions and releases can be counted. A \<^verbatim>\<open>Put\<close> of a nil buffer is recorded as
  \<open>None\<close>.\<close>

record BufferPool =
  next_id :: nat
  acquired :: "nat list"
  released :: "nat option list"

definition Pool_Get :: "BufferPool \<Rightarrow> int \<Rightarrow> (Buffer \<times> int) \<times> BufferPool" where
  "Pool_Get p n =
     ((\<lparr>buf_id = next_id p, contents = []\<rparr>, n),
      p\<lparr>next_id := Suc (next_id p), acquired := acquired p @ [next_id p]\<rparr>)"

definition Pool_Put :: "BufferPool \<Rightarrow> Buffer option \<Rightarrow> int \<Rightarrow> BufferPool" where
  "Pool_Put p b i = p\<lparr>released := released p @ [map_option buf_id b]\<rparr>"

text \<open>The transport \<^verbatim>\<open>net.Conn\<close>: what was handed to it for writing, how often a deadline was
  set, and the results it is going to give to the operations to come (nil once the list is
  used up).\<close>

record NetConn =
  written :: "bytes list"
  deadlines :: nat
  outcomes :: "error option list"

text \<open>Modelled from the spec: \<^verbatim>\<open>internal.WriteN\<close> writes all bytes of the frame to the socket
  (section 4.3) and reports the transport's error.\<close>

definition WriteN :: "NetConn \<Rightarrow> bytes \<Rightarrow> error option \<times> NetConn" where
  "WriteN nc bs =
     (case outcomes nc of
        [] \<Rightarrow> (None, nc\<lparr>written := written nc @ [bs]\<rparr>)
      | r # rs \<Rightarrow> (r, nc\<lparr>written := written nc @ [bs], outcomes := rs\<rparr>))"

definition net_SetDeadline :: "NetConn \<Rightarrow> error option \<times> NetConn" where
  "net_SetDeadline nc =
     (case outcomes nc of
        [] \<Rightarrow> (None, nc\<lparr>deadlines := Suc (deadlines nc)\<rparr>)
      | r # rs \<Rightarrow> (r, nc\<lparr>deadlines := Suc (deadlines nc), outcomes := rs\<rparr>))"

text \<open>What the code takes from outside src/ and the spec leaves open: the size threshold
  \<^verbatim>\<open>internal.ThresholdV1\<close>, the text of an error (Go's \<^verbatim>\<open>Error()\<close> method), the compressor
  picked by \<^verbatim>\<open>c.config.compressors.Select()\<close> (it fails, or appends its output to the
  buffer), the mask key drawn by \<^verbatim>\<open>GenerateHeader\<close> and the constant \<^verbatim>\<open>compressionRate\<close>.\<close>

record Extern =
  ThresholdV1 :: nat
  Error_text :: "error \<Rightarrow> bytes"
  Compress :: "bytes \<Rightarrow> error + bytes"
  maskKey :: "byte \<times> byte \<times> byte \<times> byte"
  compressionRate :: int

text \<open>Modelled from the spec: \<^verbatim>\<open>StatusCode.Bytes\<close> is the two-byte big-endian status code
  that opens a close frame payload (section 6).\<close>

definition StatusCode_Bytes :: "StatusCode \<Rightarrow> bytes" where
  "StatusCode_Bytes code = [ucast (drop_bit 8 code), ucast code]"

text \<open>Modelled from the spec: the size of the padding reserved in front of compressed data is
  the largest header there is (section 4.2): two bytes, an eight-byte length and a mask key.\<close>

definition frameHeaderSize :: int where
  "frameHeaderSize = 14"

definition opcode_byte :: "Opcode \<Rightarrow> byte" where
  "opcode_byte opcode =
     (case opcode of
        OpcodeContinuation \<Rightarrow> 0x0
      | OpcodeText \<Rightarrow> 0x1
      | OpcodeBinary \<Rightarrow> 0x2
      | OpcodeCloseConnection \<Rightarrow> 0x8
      | OpcodePing \<Rightarrow> 0x9
      | OpcodePong \<Rightarrow> 0xA)"

definition be_bytes :: "nat \<Rightarrow> int \<Rightarrow> bytes" where
  "be_bytes k n = map (\<lambda>i. word_of_int (n div 256 ^ (k - 1 - i))) [0..<k]"

text \<open>Modelled from the spec: \<^verbatim>\<open>frameHeader.GenerateHeader\<close> (sections 3, 4.1 and 6). The first
  byte carries FIN, RSV1 (set iff the frame is compressed and the opcode is a data frame
  opcode) and the opcode; the length is inline up to 125, a 16-bit field after 126, a 64-bit
  field after 127; a client sets the mask bit and appends the mask key. The result is the
  header (its length is the source's \<^verbatim>\<open>headerLength\<close>) and the mask key.\<close>

definition GenerateHeader ::
  "byte \<times> byte \<times> byte \<times> byte \<Rightarrow> bool \<Rightarrow> bool \<Rightarrow> bool \<Rightarrow> Opcode \<Rightarrow> int \<Rightarrow> bytes \<times> bytes" where
  "GenerateHeader key is_server fin compress opcode n =
     (let b0 = (if fin then 0x80 else 0) OR (if compress \<and> isDataFrame opcode then 0x40 else 0)
                 OR opcode_byte opcode;
          m = (if is_server then 0 else 0x80);
          len = (if n \<le> 125 then [m OR word_of_int n]
                 else if n \<le> 65535 then (m OR 126) # be_bytes 2 n
                 else (m OR 127) # be_bytes 8 n);
          maskBytes = (case key of (k0, k1, k2, k3) \<Rightarrow> [k0, k1, k2, k3])
      in if is_server then (b0 # len, []) else (b0 # len @ maskBytes, maskBytes))"

text \<open>Modelled from the spec: \<^verbatim>\<open>internal.MaskXOR\<close> XORs the payload with the four-byte mask
  key, byte by byte (glossary, mask key).\<close>

definition MaskXOR :: "bytes \<Rightarrow> bytes \<Rightarrow> bytes" where
  "MaskXOR b key = map (\<lambda>(i, v). v XOR key ! (i mod 4)) (zip [0..<length b] b)"

section \<open>The connection\<close>

text \<open>A task on the write queue is a closure; it is kept as the data it captured.\<close>

datatype task = AsyncWriteTask Buffer int | BroadcastTask Buffer

text \<open>The fields of \<^verbatim>\<open>Conn\<close> that the code under study reads or writes. The event handler is
  a collaborator: \<open>onClose\<close> lists the arguments of its \<^verbatim>\<open>OnClose\<close> calls so far.
  Modelled from the spec: the write queue (\<^verbatim>\<open>workerQueue\<close> with concurrency 1, section 4.4)
  runs its tasks one at a time in the order they were pushed.\<close>

record Conn =
  isServer :: bool
  compressEnabled :: bool
  conn :: NetConn
  config :: Config
  closed :: "32 word"
  writeQueue :: "task list"
  onClose :: "error list"

definition isClosed :: "Conn \<Rightarrow> bool" where
  "isClosed c = (closed c = 1)"

section \<open>writer.go: frame generation\<close>

definition compressData ::
  "Extern \<Rightarrow> Conn \<Rightarrow> BufferPool \<Rightarrow> Opcode \<Rightarrow> bytes \<Rightarrow> (error + Buffer \<times> int) \<times> BufferPool" where
  "compressData x c p opcode payload =
     (case Pool_Get p (int (length payload) div compressionRate x) of
        ((buf, index), p') \<Rightarrow>
          (case Compress x payload of
             Inl err \<Rightarrow> (Inl err, p')
           | Inr out \<Rightarrow>
               (let padded = replicate (nat frameHeaderSize) 0 @ out;
                    payloadSize = int (length padded) - frameHeaderSize
                in if payloadSize > WriteMaxPayloadSize (config c)
                   then (Inl (StatusCodeErr CloseMessageTooLarge), p')
                   else
                     (case GenerateHeader (maskKey x) (isServer c) True True opcode payloadSize of
                        (header, maskBytes) \<Rightarrow>
                          (let body = (if \<not> isServer c then MaskXOR out maskBytes else out)
                           in (Inr (buf\<lparr>contents := header @ body\<rparr>, index), p'))))))"

definition genFrame ::
  "Extern \<Rightarrow> Conn \<Rightarrow> BufferPool \<Rightarrow> Opcode \<Rightarrow> bytes \<Rightarrow> (error + Buffer \<times> int) \<times> BufferPool" where
  "genFrame x c p opcode payload =
     (if opcode = OpcodeText \<and> \<not> isTextValid (config c) opcode payload
      then (Inl (InternalError CloseUnsupportedData ErrTextEncoding), p)
      else if compressEnabled c \<and> isDataFrame opcode
              \<and> int (length payload) \<ge> CompressThreshold (config c)
      then compressData x c p opcode payload
      else
        (let n = int (length payload)
         in if n > WriteMaxPayloadSize (config c)
            then (Inl (StatusCodeErr CloseMessageTooLarge), p)
            else
              (case GenerateHeader (maskKey x) (isServer c) True False opcode n of
                 (header, maskBytes) \<Rightarrow>
                   (let headerLength = int (length header);
                        totalSize = n + headerLength
                    in case Pool_Get p totalSize of
                         ((buf, index), p') \<Rightarrow>
                           (let body = (if \<not> isServer c then MaskXOR payload maskBytes
                                        else payload)
                            in (Inr (buf\<lparr>contents := header @ body\<rparr>, index), p'))))))"

text \<open>\<^verbatim>\<open>doWrite\<close> does not look at the closed flag, so that the close frame can be sent.\<close>

definition doWrite ::
  "Extern \<Rightarrow> Conn \<Rightarrow> BufferPool \<Rightarrow> Opcode \<Rightarrow> bytes \<Rightarrow> error option \<times> Conn \<times> BufferPool" where
  "doWrite x c p opcode payload =
     (case genFrame x c p opcode payload of
        (Inl err, p') \<Rightarrow> (Some err, c, p')
      | (Inr (frame, index), p') \<Rightarrow>
          (case WriteN (conn c) (contents frame) of
             (err, nc) \<Rightarrow> (err, c\<lparr>conn := nc\<rparr>, Pool_Put p' (Some frame) index)))"


section \<open>conn.go: the close transition\<close>

text \<open>\<^verbatim>\<open>atomic.CompareAndSwapUint32(&c.closed, 0, 1)\<close> is one indivisible step: it reports
  whether the flag was 0 and leaves it at 1 in that case. Whoever gets \<open>True\<close> carries on
  alone, so a trigger is modelled as one step on the connection.\<close>

definition CompareAndSwap_closed :: "Conn \<Rightarrow> bool \<times> Conn" where
  "CompareAndSwap_closed c = (if closed c = 0 then (True, c\<lparr>closed := 1\<rparr>) else (False, c))"

text \<open>The payload that \<^verbatim>\<open>emitError\<close> puts into the close frame: the bytes of the response
  code, then the text of the error, cut at the threshold.\<close>

definition responseCode_of :: "error \<Rightarrow> StatusCode" where
  "responseCode_of e =
     (case e of
        StatusCodeErr v \<Rightarrow> v
      | InternalError code cause \<Rightarrow> code
      | _ \<Rightarrow> CloseNormalClosure)"

definition responseErr_of :: "error \<Rightarrow> error" where
  "responseErr_of e =
     (case e of
        StatusCodeErr v \<Rightarrow> StatusCodeErr CloseNormalClosure
      | InternalError code cause \<Rightarrow> cause
      | _ \<Rightarrow> e)"

definition emitError_content :: "Extern \<Rightarrow> error \<Rightarrow> bytes" where
  "emitError_content x e =
     (let content = StatusCode_Bytes (responseCode_of e) @ Error_text x e
      in if length content > ThresholdV1 x then take (ThresholdV1 x) content else content)"

definition emitError :: "Extern \<Rightarrow> Conn \<Rightarrow> BufferPool \<Rightarrow> error option \<Rightarrow> Conn \<times> BufferPool" where
  "emitError x c p err =
     (case err of
        None \<Rightarrow> (c, p)
      | Some e \<Rightarrow>
          (case CompareAndSwap_closed c of
             (False, c0) \<Rightarrow> (c0, p)
           | (True, c0) \<Rightarrow>
               (case doWrite x c0 p OpcodeCloseConnection (emitError_content x e) of
                  (werr, c1, p1) \<Rightarrow>
                    (case net_SetDeadline (conn c1) of
                       (derr, nc) \<Rightarrow>
                         (c1\<lparr>conn := nc, onClose := onClose c1 @ [responseErr_of e]\<rparr>, p1)))))"

definition emitClose :: "Extern \<Rightarrow> Conn \<Rightarrow> BufferPool \<Rightarrow> bytes \<Rightarrow> error \<times> Conn \<times> BufferPool" where
  "emitClose x c p buf =
     (case emitClose_codes (config c) buf of
        (responseCode, realCode, reason) \<Rightarrow>
          (case CompareAndSwap_closed c of
             (False, c0) \<Rightarrow> (StatusCodeErr CloseNormalClosure, c0, p)
           | (True, c0) \<Rightarrow>
               (case doWrite x c0 p OpcodeCloseConnection (StatusCode_Bytes responseCode) of
                  (werr, c1, p1) \<Rightarrow>
                    (StatusCodeErr CloseNormalClosure,
                     c1\<lparr>onClose := onClose c1 @ [CloseError realCode reason]\<rparr>, p1))))"

definition SetDeadline :: "Extern \<Rightarrow> Conn \<Rightarrow> BufferPool \<Rightarrow> error option \<times> Conn \<times> BufferPool" where
  "SetDeadline x c p =
     (if isClosed c then (Some ErrConnClosed, c, p)
      else
        (case net_SetDeadline (conn c) of
           (err, nc) \<Rightarrow>
             (case emitError x (c\<lparr>conn := nc\<rparr>) p err of
                (c', p') \<Rightarrow> (err, c', p'))))"

section \<open>writer.go: the write entry points\<close>

definition WriteClose :: "Extern \<Rightarrow> Conn \<Rightarrow> BufferPool \<Rightarrow> 16 word \<Rightarrow> bytes \<Rightarrow> Conn \<times> BufferPool" where
  "WriteClose x c p code reason =
     (let err = (if length reason > 0 then InternalError code (ErrorString reason)
                 else InternalError code (GwsError []))
      in emitError x c p (Some err))"

definition WriteMessage ::
  "Extern \<Rightarrow> Conn \<Rightarrow> BufferPool \<Rightarrow> Opcode \<Rightarrow> bytes \<Rightarrow> error option \<times> Conn \<times> BufferPool" where
  "WriteMessage x c p opcode payload =
     (if isClosed c then (Some ErrConnClosed, c, p)
      else
        (case doWrite x c p opcode payload of
           (err, c1, p1) \<Rightarrow>
             (case emitError x c1 p1 err of
                (c2, p2) \<Rightarrow> (err, c2, p2))))"

definition WriteAsync ::
  "Extern \<Rightarrow> Conn \<Rightarrow> BufferPool \<Rightarrow> Opcode \<Rightarrow> bytes \<Rightarrow> error option \<times> Conn \<times> BufferPool" where
  "WriteAsync x c p opcode payload =
     (case genFrame x c p opcode payload of
        (Inl err, p1) \<Rightarrow>
          (case emitError x c p1 (Some err) of
             (c2, p2) \<Rightarrow> (Some err, c2, p2))
      | (Inr (frame, index), p1) \<Rightarrow>
          (None, c\<lparr>writeQueue := writeQueue c @ [AsyncWriteTask frame index]\<rparr>, p1))"

text \<open>The body of the closure that \<^verbatim>\<open>WriteAsync\<close> pushes, run later by the write queue.\<close>

definition runAsyncWrite :: "Extern \<Rightarrow> Conn \<Rightarrow> BufferPool \<Rightarrow> Buffer \<Rightarrow> int \<Rightarrow> Conn \<times> BufferPool" where
  "runAsyncWrite x c p frame index =
     (if isClosed c then (c, p)
      else
        (case WriteN (conn c) (contents frame) of
           (err, nc) \<Rightarrow> emitError x (c\<lparr>conn := nc\<rparr>) (Pool_Put p (Some frame) index) err))"

section \<open>writer.go: the broadcaster\<close>

record broadcastMessageWrapper =
  msg_err :: "error option"
  msg_index :: int
  msg_frame :: "Buffer option"

record Broadcaster =
  bc_opcode :: Opcode
  bc_payload :: bytes
  bc_msgs :: "broadcastMessageWrapper option list"
  bc_state :: int

definition MaxInt32 :: int where
  "MaxInt32 = 2147483647"

text \<open>\<^verbatim>\<open>atomic.AddInt64\<close>: the sum wraps around in 64 bits, two's complement.\<close>

definition AddInt64 :: "int \<Rightarrow> int \<Rightarrow> int" where
  "AddInt64 v d = (v + d + 2 ^ 63) mod 2 ^ 64 - 2 ^ 63"

definition NewBroadcaster :: "Opcode \<Rightarrow> bytes \<Rightarrow> Broadcaster" where
  "NewBroadcaster opcode payload =
     \<lparr>bc_opcode = opcode, bc_payload = payload, bc_msgs = [None, None], bc_state = MaxInt32\<rparr>"

text \<open>\<^verbatim>\<open>Broadcast\<close> builds the wrapper for its kind of connection on first use and keeps it,
  error included. A wrapper without error holds a frame (that is how the wrapper is built); the
  branch for a wrapper with neither, where the source would dereference nil, leaves everything
  as it is.\<close>

definition Broadcast ::
  "Extern \<Rightarrow> Broadcaster \<Rightarrow> Conn \<Rightarrow> BufferPool \<Rightarrow> error option \<times> Broadcaster \<times> Conn \<times> BufferPool" where
  "Broadcast x b socket p =
     (let idx = (if compressEnabled socket then 1 else 0 :: nat);
          (msg, b1, p1) =
            (case bc_msgs b ! idx of
               Some m \<Rightarrow> (m, b, p)
             | None \<Rightarrow>
                 (case genFrame x socket p (bc_opcode b) (bc_payload b) of
                    (Inl err, p') \<Rightarrow>
                      (let m = \<lparr>msg_err = Some err, msg_index = 0, msg_frame = None\<rparr>
                       in (m, b\<lparr>bc_msgs := (bc_msgs b)[idx := Some m]\<rparr>, p'))
                  | (Inr (frame, index), p') \<Rightarrow>
                      (let m = \<lparr>msg_err = None, msg_index = index, msg_frame = Some frame\<rparr>
                       in (m, b\<lparr>bc_msgs := (bc_msgs b)[idx := Some m]\<rparr>, p'))))
      in case msg_err msg of
           Some err \<Rightarrow> (Some err, b1, socket, p1)
         | None \<Rightarrow>
             (case msg_frame msg of
                None \<Rightarrow> (None, b1, socket, p1)
              | Some frame \<Rightarrow>
                  (None, b1\<lparr>bc_state := AddInt64 (bc_state b1) 1\<rparr>,
                   socket\<lparr>writeQueue := writeQueue socket @ [BroadcastTask frame]\<rparr>, p1)))"

definition doClose :: "Broadcaster \<Rightarrow> BufferPool \<Rightarrow> BufferPool" where
  "doClose b p =
     fold (\<lambda>item q. case item of None \<Rightarrow> q | Some m \<Rightarrow> Pool_Put q (msg_frame m) (msg_index m))
       (bc_msgs b) p"

text \<open>The body of the closure that \<^verbatim>\<open>Broadcast\<close> pushes.\<close>

definition runBroadcastWrite ::
  "Extern \<Rightarrow> Broadcaster \<Rightarrow> Conn \<Rightarrow> BufferPool \<Rightarrow> Buffer \<Rightarrow> Broadcaster \<times> Conn \<times> BufferPool" where
  "runBroadcastWrite x b socket p frame =
     (case (if \<not> isClosed socket
            then (case WriteN (conn socket) (contents frame) of
                    (err, nc) \<Rightarrow> emitError x (socket\<lparr>conn := nc\<rparr>) p err)
            else (socket, p)) of
        (socket', p') \<Rightarrow>
          (let b' = b\<lparr>bc_state := AddInt64 (bc_state b) (- 1)\<rparr>
           in if bc_state b' = 0 then (b', socket', doClose b' p') else (b', socket', p')))"

definition Release :: "Broadcaster \<Rightarrow> BufferPool \<Rightarrow> Broadcaster \<times> BufferPool" where
  "Release b p =
     (let b' = b\<lparr>bc_state := AddInt64 (bc_state b) (- 1 * MaxInt32)\<rparr>
      in if bc_state b' = 0 then (b', doClose b' p) else (b', p))"


section \<open>The spec's reading of the close-code policy\<close>

text \<open>Section 4.5 of the spec in its own words, for comparison with \<open>emitClose_codes\<close>: the
  status code is read as a number from the first two bytes, and the cases are the ones the
  spec lists.\<close>

definition spec_close_response :: "bool \<Rightarrow> bytes \<Rightarrow> StatusCode" where
  "spec_close_response check payload =
     (if payload = [] then 0
      else if length payload = 1 then CloseProtocolError
      else
        (let code = 256 * unat (payload ! 0) + unat (payload ! 1);
             reason = drop 2 payload
         in if check \<and> \<not> utf8_Valid reason then CloseUnsupportedData
            else if code \<in> {1004, 1005, 1006, 1014, 1015} \<or> code < 1000 \<or> 5000 \<le> code
                    \<or> (1016 \<le> code \<and> code < 3000)
              then CloseProtocolError
            else if 1000 \<le> code \<and> code < 1016 then CloseNormalClosure
            else of_nat code))"


section \<open>Sample values\<close>

text \<open>A concrete environment and a concrete open server connection, on which the properties
  below are evaluated: threshold 125, a compressor that keeps the first two bytes, UTF-8
  checking and compression enabled, payloads of up to 8 bytes.\<close>

definition sample_Extern :: Extern where
  "sample_Extern =
     \<lparr>ThresholdV1 = 125,
      Error_text = (\<lambda>e. case e of ErrorString s \<Rightarrow> s | GwsError s \<Rightarrow> s | _ \<Rightarrow> [0x65, 0x72, 0x72]),
      Compress = (\<lambda>b. Inr (take 2 b)),
      maskKey = (1, 2, 3, 4),
      compressionRate = 3\<rparr>"

definition sample_Config :: Config where
  "sample_Config = \<lparr>CheckUtf8Enabled = True, CompressThreshold = 4, WriteMaxPayloadSize = 8\<rparr>"

definition sample_Conn :: Conn where
  "sample_Conn =
     \<lparr>isServer = True, compressEnabled = True,
      conn = \<lparr>written = [], deadlines = 0, outcomes = []\<rparr>,
      config = sample_Config, closed = 0, writeQueue = [], onClose = []\<rparr>"

definition sample_Pool :: BufferPool where
  "sample_Pool = \<lparr>next_id = 0, acquired = [], released = []\<rparr>"

section \<open>Close triggers\<close>

text \<open>The four ways in which the code starts the close transition: \<^verbatim>\<open>ReadLoop\<close> hands the error
  of \<^verbatim>\<open>readMessage\<close> to \<^verbatim>\<open>emitError\<close>; a write entry point hands over the error of its write;
  the payload of the peer's close frame goes to \<^verbatim>\<open>emitClose\<close>; the application calls
  \<^verbatim>\<open>WriteClose\<close>. Each one decides by the compare-and-swap whether it acts.\<close>

datatype trigger = ReadError error | WriteError error | PeerClose bytes | ExplicitClose "16 word" bytes

fun fire :: "Extern \<Rightarrow> trigger \<Rightarrow> Conn \<times> BufferPool \<Rightarrow> Conn \<times> BufferPool" where
  "fire x (ReadError e) (c, p) = emitError x c p (Some e)"
| "fire x (WriteError e) (c, p) = emitError x c p (Some e)"
| "fire x (PeerClose buf) (c, p) = snd (emitClose x c p buf)"
| "fire x (ExplicitClose code reason) (c, p) = WriteClose x c p code reason"

section \<open>Notions of the spec about a generated frame\<close>

text \<open>The final frame payload length of section 4.2, step 3: the length of what the compressor
  produced when \<^verbatim>\<open>genFrame\<close>'s condition for compression holds (there is none if the compressor
  fails), the length of the payload as given otherwise.\<close>

definition finalPayloadSize :: "Extern \<Rightarrow> Conn \<Rightarrow> Opcode \<Rightarrow> bytes \<Rightarrow> int option" where
  "finalPayloadSize x c opcode payload =
     (if compressEnabled c \<and> isDataFrame opcode \<and> CompressThreshold (config c) \<le> int (length payload)
      then (case Compress x payload of Inl err \<Rightarrow> None | Inr out \<Rightarrow> Some (int (length out)))
      else Some (int (length payload)))"

text \<open>RSV1 is bit 0x40 of the first byte of a frame (section 6, wire format).\<close>

definition RSV1 :: "Buffer \<Rightarrow> bool" where
  "RSV1 frame = (case contents frame of [] \<Rightarrow> False | b0 # rest \<Rightarrow> b0 AND 0x40 = 0x40)"

text \<open>Two more compressors for the sample environment: one that fails, one whose output is
  three times its input.\<close>

definition failing_Compress :: "bytes \<Rightarrow> error + bytes" where
  "failing_Compress b = Inl (ErrorString [])"

definition tripling_Compress :: "bytes \<Rightarrow> error + bytes" where
  "tripling_Compress b = Inr (b @ b @ b)"

section \<open>A broadcaster and its connections\<close>

text \<open>One broadcaster, the connections it serves and the buffer pool they share.\<close>

record World =
  w_bc :: Broadcaster
  w_conns :: "Conn list"
  w_pool :: BufferPool

text \<open>What happens around a broadcaster, one indivisible step each: the application calls
  \<^verbatim>\<open>Broadcast\<close> for the connection with the given index, the write queue of a connection runs
  its next task, the application calls \<^verbatim>\<open>Release\<close>. The counter is only touched by
  \<^verbatim>\<open>atomic.AddInt64\<close>, and a task exists only once \<^verbatim>\<open>Broadcast\<close> has pushed it, so the
  interleavings of the threads are the sequences of these steps.\<close>

datatype action = DoBroadcast nat | DoRunTask nat | DoRelease

definition runTask :: "Extern \<Rightarrow> nat \<Rightarrow> World \<Rightarrow> World" where
  "runTask x i w =
     (if i < length (w_conns w) then
        (case writeQueue (w_conns w ! i) of
           [] \<Rightarrow> w
         | AsyncWriteTask frame index # rest \<Rightarrow>
             (case runAsyncWrite x ((w_conns w ! i)\<lparr>writeQueue := rest\<rparr>) (w_pool w) frame index of
                (c', p') \<Rightarrow> w\<lparr>w_conns := (w_conns w)[i := c'], w_pool := p'\<rparr>)
         | BroadcastTask frame # rest \<Rightarrow>
             (case runBroadcastWrite x (w_bc w) ((w_conns w ! i)\<lparr>writeQueue := rest\<rparr>) (w_pool w) frame of
                (b', c', p') \<Rightarrow> w\<lparr>w_bc := b', w_conns := (w_conns w)[i := c'], w_pool := p'\<rparr>))
      else w)"

fun step :: "Extern \<Rightarrow> action \<Rightarrow> World \<Rightarrow> World" where
  "step x (DoBroadcast i) w =
     (if i < length (w_conns w) then
        (case Broadcast x (w_bc w) (w_conns w ! i) (w_pool w) of
           (err, b', c', p') \<Rightarrow> w\<lparr>w_bc := b', w_conns := (w_conns w)[i := c'], w_pool := p'\<rparr>)
      else w)"
| "step x (DoRunTask i) w = runTask x i w"
| "step x DoRelease w =
     (case Release (w_bc w) (w_pool w) of (b', p') \<Rightarrow> w\<lparr>w_bc := b', w_pool := p'\<rparr>)"

text \<open>The use of a broadcaster that the spec asks for (section 4.6): \<^verbatim>\<open>Release\<close> is called at
  most once, and no \<^verbatim>\<open>Broadcast\<close> follows it. The flag says whether \<^verbatim>\<open>Release\<close> has been
  called already.\<close>

fun protocol :: "bool \<Rightarrow> action list \<Rightarrow> bool" where
  "protocol r [] = True"
| "protocol r (DoBroadcast i # acts) = (\<not> r \<and> protocol r acts)"
| "protocol r (DoRunTask i # acts) = protocol r acts"
| "protocol r (DoRelease # acts) = (\<not> r \<and> protocol True acts)"

text \<open>The queued writes that have not completed yet, the frames the broadcaster has cached, and
  how often the pool has got a frame back.\<close>

definition pending :: "World \<Rightarrow> nat" where
  "pending w = sum_list (map (\<lambda>c. length (writeQueue c)) (w_conns w))"

definition item_frames :: "broadcastMessageWrapper option \<Rightarrow> Buffer list" where
  "item_frames item = (case item of None \<Rightarrow> [] | Some m \<Rightarrow> (case msg_frame m of None \<Rightarrow> [] | Some f \<Rightarrow> [f]))"

definition cached_frames :: "Broadcaster \<Rightarrow> Buffer list" where
  "cached_frames b = concat (map item_frames (bc_msgs b))"

definition times_released :: "BufferPool \<Rightarrow> Buffer \<Rightarrow> nat" where
  "times_released p f = count_list (released p) (Some (buf_id f))"

text \<open>A pool is in order when every buffer it has got back is one it had handed out.\<close>

definition pool_ok :: "BufferPool \<Rightarrow> bool" where
  "pool_ok p = list_all (\<lambda>r. case r of None \<Rightarrow> True | Some j \<Rightarrow> j < next_id p) (released p)"

text \<open>The world right after \<^verbatim>\<open>NewBroadcaster\<close>, and a sample of it: four connections (the
  second without compression, the fourth closed), four broadcasts, \<^verbatim>\<open>Release\<close> while three
  writes are pending, then the remaining tasks.\<close>

definition start :: "Opcode \<Rightarrow> bytes \<Rightarrow> Conn list \<Rightarrow> BufferPool \<Rightarrow> World" where
  "start opcode payload cs p = \<lparr>w_bc = NewBroadcaster opcode payload, w_conns = cs, w_pool = p\<rparr>"

definition sample_start :: World where
  "sample_start = start OpcodeText [0x61, 0x62, 0x63, 0x64]
     [sample_Conn, sample_Conn\<lparr>compressEnabled := False\<rparr>, sample_Conn, sample_Conn\<lparr>closed := 1\<rparr>] sample_Pool"

definition sample_run :: "action list" where
  "sample_run = [DoBroadcast 0, DoBroadcast 1, DoRunTask 0, DoBroadcast 2, DoBroadcast 3, DoRelease,
                 DoRunTask 1, DoRunTask 3, DoRunTask 2]"

text \<open>Notions of the proof: a pool that has only moved forward (more buffers handed out,
  releases of those new buffers only), queues that hold nothing but writes of cached frames,
  and the invariant of a broadcaster in use; \<open>r\<close> says whether \<^verbatim>\<open>Release\<close> has been called,
  \<open>n\<close> bounds the number of pending writes.\<close>

definition pool_grows :: "BufferPool \<Rightarrow> BufferPool \<Rightarrow> bool" where
  "pool_grows p p' \<longleftrightarrow>
     next_id p \<le> next_id p'
     \<and> (\<exists>ys. released p' = released p @ ys
            \<and> list_all (\<lambda>r. case r of None \<Rightarrow> False | Some j \<Rightarrow> next_id p \<le> j \<and> j < next_id p') ys)"

definition tasks_cached :: "World \<Rightarrow> bool" where
  "tasks_cached w \<longleftrightarrow>
     (\<forall>c \<in> set (w_conns w). \<forall>t \<in> set (writeQueue c).
        \<exists>f \<in> set (cached_frames (w_bc w)). t = BroadcastTask f)"

definition bc_inv :: "bool \<Rightarrow> nat \<Rightarrow> World \<Rightarrow> bool" where
  "bc_inv r n w \<longleftrightarrow>
     length (bc_msgs (w_bc w)) = 2
     \<and> bc_state (w_bc w) = (if r then 0 else MaxInt32) + int (pending w)
     \<and> pending w \<le> n
     \<and> tasks_cached w
     \<and> (\<forall>f \<in> set (cached_frames (w_bc w)). buf_id f < next_id (w_pool w))
     \<and> distinct (map buf_id (cached_frames (w_bc w)))
     \<and> pool_ok (w_pool w)
     \<and> (\<forall>f \<in> set (cached_frames (w_bc w)).
           times_released (w_pool w) f = (if r \<and> pending w = 0 then 1 else 0))"

section \<open>Close triggers as concurrent threads\<close>

text \<open>A trigger seen as a thread: where it stands in \<^verbatim>\<open>emitError\<close> or \<^verbatim>\<open>emitClose\<close>. It starts
  at the compare-and-swap; the thread that wins it goes on to the write of the close frame, to
  the deadline (\<^verbatim>\<open>emitError\<close> only) and to the close callback; the others are finished at
  once. What the winner writes and what it hands to the callback are the values the two
  functions compute from the trigger and the configuration.\<close>

datatype pc = AtCAS | AtWrite | AtDeadline | AtCallback | Finished

definition close_payload :: "Extern \<Rightarrow> Conn \<Rightarrow> trigger \<Rightarrow> bytes" where
  "close_payload x c t =
     (case t of
        ReadError e \<Rightarrow> emitError_content x e
      | WriteError e \<Rightarrow> emitError_content x e
      | PeerClose buf \<Rightarrow> StatusCode_Bytes (fst (emitClose_codes (config c) buf))
      | ExplicitClose code reason \<Rightarrow>
          emitError_content x
            (if length reason > 0 then InternalError code (ErrorString reason)
             else InternalError code (GwsError [])))"

definition callback_arg :: "Conn \<Rightarrow> trigger \<Rightarrow> error" where
  "callback_arg c t =
     (case t of
        ReadError e \<Rightarrow> responseErr_of e
      | WriteError e \<Rightarrow> responseErr_of e
      | PeerClose buf \<Rightarrow>
          (case emitClose_codes (config c) buf of
             (responseCode, realCode, reason) \<Rightarrow> CloseError realCode reason)
      | ExplicitClose code reason \<Rightarrow>
          responseErr_of
            (if length reason > 0 then InternalError code (ErrorString reason)
             else InternalError code (GwsError [])))"

fun thread_step ::
  "Extern \<Rightarrow> trigger \<times> pc \<Rightarrow> Conn \<times> BufferPool \<Rightarrow> (trigger \<times> pc) \<times> Conn \<times> BufferPool" where
  "thread_step x (t, AtCAS) (c, p) =
     (case CompareAndSwap_closed c of
        (True, c0) \<Rightarrow> ((t, AtWrite), c0, p)
      | (False, c0) \<Rightarrow> ((t, Finished), c0, p))"
| "thread_step x (t, AtWrite) (c, p) =
     (case doWrite x c p OpcodeCloseConnection (close_payload x c t) of
        (werr, c1, p1) \<Rightarrow>
          ((t, case t of PeerClose buf \<Rightarrow> AtCallback | _ \<Rightarrow> AtDeadline), c1, p1))"
| "thread_step x (t, AtDeadline) (c, p) =
     (case net_SetDeadline (conn c) of
        (derr, nc) \<Rightarrow> ((t, AtCallback), c\<lparr>conn := nc\<rparr>, p))"
| "thread_step x (t, AtCallback) (c, p) =
     ((t, Finished), c\<lparr>onClose := onClose c @ [callback_arg c t]\<rparr>, p)"
| "thread_step x (t, Finished) (c, p) = ((t, Finished), c, p)"

text \<open>Threads running concurrently: a schedule names, step by step, the thread that moves
  next.\<close>

fun sys_step ::
  "Extern \<Rightarrow> nat \<Rightarrow> (trigger \<times> pc) list \<times> Conn \<times> BufferPool \<Rightarrow> (trigger \<times> pc) list \<times> Conn \<times> BufferPool" where
  "sys_step x i (ths, s) =
     (if i < length ths then
        (case thread_step x (ths ! i) s of (th, s') \<Rightarrow> (ths[i := th], s'))
      else (ths, s))"

text \<open>Notions of the proof: the number of threads between the compare-and-swap and the end of
  the callback, and the invariant of the threads of one connection that had \<open>o0\<close> callback
  calls and \<open>w0\<close> writes when they started.\<close>

definition in_progress :: "(trigger \<times> pc) list \<Rightarrow> nat" where
  "in_progress ths =
     count_list (map snd ths) AtWrite + count_list (map snd ths) AtDeadline
       + count_list (map snd ths) AtCallback"

definition close_inv :: "nat \<Rightarrow> nat \<Rightarrow> (trigger \<times> pc) list \<times> Conn \<times> BufferPool \<Rightarrow> bool" where
  "close_inv o0 w0 st =
     (case st of
        (ths, c, p) \<Rightarrow>
          (closed c = 0 \<or> closed c = 1)
          \<and> (closed c = 0 \<longrightarrow>
                in_progress ths + count_list (map snd ths) Finished = 0
                \<and> length (onClose c) = o0 \<and> length (written (conn c)) = w0)
          \<and> (closed c = 1 \<longrightarrow>
                in_progress ths \<le> 1
                \<and> length (onClose c) = (if in_progress ths = 0 then Suc o0 else o0)
                \<and> length (written (conn c)) \<le> Suc w0
                \<and> (count_list (map snd ths) AtWrite = 1 \<longrightarrow> length (written (conn c)) = w0)))"

section \<open>Properties: the close-code policy\<close>

lemma unat_ucast_byte: "unat (ucast (b::byte) :: 16 word) = unat b"
  by (simp add: unsigned_ucast_eq take_bit_nat_eq_self_iff order_less_trans [OF unsigned_less])

lemma unat_byte_lt: "unat (b::byte) < 256"
  using unsigned_less [of b] by simp

lemma unat_shift_byte: "unat (push_bit 8 (ucast (b::byte)) :: 16 word) = 256 * unat b"
proof -
  let ?w = "ucast b :: 16 word"
  have "unat ?w * unat (256 :: 16 word) < 2 ^ LENGTH(16)"
    using unat_byte_lt [of b] by (simp add: unat_ucast_byte)
  then have "unat (?w * 256) = unat ?w * unat (256 :: 16 word)"
    by (simp only: unat_mult_lem)
  then show ?thesis
    by (simp add: push_bit_eq_mult unat_ucast_byte)
qed

lemma and_zero: "push_bit 8 (ucast (b0::byte)) AND (ucast (b1::byte) :: 16 word) = 0"
  by (rule bit_eqI) (auto simp: bit_simps dest: bit_imp_le_length)

lemma unat_BigEndian_Uint16: "unat (BigEndian_Uint16 b0 b1) = 256 * unat b0 + unat b1"
proof -
  let ?a = "push_bit 8 (ucast b0) :: 16 word" and ?b = "ucast b1 :: 16 word"
  have "?a OR ?b = ?a + ?b"
    by (rule disjunctive_add_eq_or [symmetric]) (rule and_zero)
  moreover have "unat ?a + unat ?b < 2 ^ LENGTH(16)"
    using unat_byte_lt [of b0] unat_byte_lt [of b1] by (simp add: unat_shift_byte unat_ucast_byte)
  then have "unat (?a + ?b) = unat ?a + unat ?b"
    by (simp only: unat_add_lem)
  ultimately show ?thesis
    by (simp add: BigEndian_Uint16_def unat_shift_byte unat_ucast_byte)
qed


lemma spec_close_response_long:
  "spec_close_response check (b0 # b1 # rest) =
     (let code = unat (BigEndian_Uint16 b0 b1)
      in if check \<and> \<not> utf8_Valid rest then CloseUnsupportedData
         else if code \<in> {1004, 1005, 1006, 1014, 1015} \<or> code < 1000 \<or> 5000 \<le> code
                 \<or> (1016 \<le> code \<and> code < 3000)
           then CloseProtocolError
         else if 1000 \<le> code \<and> code < 1016 then CloseNormalClosure
         else of_nat code)"
  by (simp add: spec_close_response_def unat_BigEndian_Uint16 Let_def)

lemma emitClose_codes_long:
  "fst (emitClose_codes cfg (b0 # b1 # rest)) =
     (let w = BigEndian_Uint16 b0 b1
      in if CheckUtf8Enabled cfg \<and> \<not> utf8_Valid rest then CloseUnsupportedData
         else if unat w \<in> {1004, 1005, 1006, 1014, 1015} \<or> unat w < 1000 \<or> 5000 \<le> unat w
                 \<or> (1016 \<le> unat w \<and> unat w < 3000)
           then CloseProtocolError
         else if unat w < 1016 then CloseNormalClosure
         else w)"
  by (simp add: emitClose_codes_def isTextValid_def Let_def word_less_nat_alt word_le_nat_alt
      word_unat_eq_iff)


text \<open>Claim C2. For every payload of a peer's close frame, the response code that \<^verbatim>\<open>emitClose\<close>
  computes is the one the policy of the spec gives: 0 for an empty payload, the protocol-error
  code for a one-byte payload, and for two or more bytes the protocol-error code for the codes
  1004, 1005, 1006, 1014, 1015, below 1000, from 5000 on and in [1016, 3000), normal closure
  for the other codes in [1000, 1016), the code itself in [3000, 5000); UnsupportedData takes
  over when UTF-8 checking is enabled and the reason bytes are not valid UTF-8.\<close>

theorem emitClose_response_code:
  "fst (emitClose_codes cfg payload) = spec_close_response (CheckUtf8Enabled cfg) payload"
proof (cases payload)
  case Nil
  then show ?thesis by (simp add: emitClose_codes_def spec_close_response_def)
next
  case (Cons b0 r)
  show ?thesis
  proof (cases r)
    case Nil
    with Cons show ?thesis by (simp add: emitClose_codes_def spec_close_response_def)
  next
    case (Cons b1 rest)
    with \<open>payload = b0 # r\<close> have p: "payload = b0 # b1 # rest" by simp
    show ?thesis
      unfolding p emitClose_codes_long spec_close_response_long
      by (auto simp: Let_def)
  qed
qed

section \<open>Properties: evaluation on the sample values\<close>

lemmas sample_defs = sample_Extern_def sample_Config_def sample_Conn_def sample_Pool_def

lemmas model_defs = WriteMessage_def WriteAsync_def doWrite_def genFrame_def compressData_def
  emitError_def emitClose_def WriteClose_def SetDeadline_def runAsyncWrite_def isClosed_def
  CompareAndSwap_closed_def WriteN_def net_SetDeadline_def Pool_Get_def Pool_Put_def
  GenerateHeader_def MaskXOR_def isTextValid_def emitError_content_def responseCode_of_def
  responseErr_of_def StatusCode_Bytes_def opcode_byte_def frameHeaderSize_def be_bytes_def
  CloseNormalClosure_def CloseProtocolError_def CloseUnsupportedData_def CloseMessageTooLarge_def

lemma sample_WriteMessage:
  "WriteMessage sample_Extern sample_Conn sample_Pool OpcodeText [0x61, 0x62] =
     (None, sample_Conn\<lparr>conn := \<lparr>written = [[0x81, 2, 0x61, 0x62]], deadlines = 0, outcomes = []\<rparr>\<rparr>,
      \<lparr>next_id = 1, acquired = [0], released = [Some 0]\<rparr>)"
  by (simp add: model_defs sample_defs isCont_def)

section \<open>Properties: the error path with a nil error\<close>

lemma WriteMessage_success:
  assumes "closed c = 0" and "WriteMessage x c p opcode payload = (None, c', p')"
  shows "closed c' = 0 \<and> onClose c' = onClose c \<and> deadlines (conn c') = deadlines (conn c)
         \<and> length (written (conn c')) = Suc (length (written (conn c)))"
  using assms
  by (auto simp: WriteMessage_def isClosed_def doWrite_def emitError_def WriteN_def
      split: prod.splits sum.splits option.splits if_splits list.splits)

lemma SetDeadline_success:
  assumes "closed c = 0" and "SetDeadline x c p = (None, c', p')"
  shows "closed c' = 0 \<and> onClose c' = onClose c \<and> written (conn c') = written (conn c) \<and> p' = p"
  using assms
  by (auto simp: SetDeadline_def isClosed_def emitError_def net_SetDeadline_def
      split: prod.splits sum.splits option.splits if_splits list.splits)

text \<open>Claim C10. \<^verbatim>\<open>emitError\<close> with a nil error changes nothing: the closed flag, the
  transport and the close callback's record stay as they are. Hence a \<^verbatim>\<open>WriteMessage\<close> or a
  \<^verbatim>\<open>SetDeadline\<close> on an open connection that returns nil leaves the connection open, with no
  close callback and no write beyond the message's own frame, although both pass their result
  to \<^verbatim>\<open>emitError\<close>.\<close>

theorem emitError_nil_noop:
  "emitError x c p None = (c, p)
   \<and> (closed c = 0 \<and> fst (WriteMessage x c p opcode payload) = None \<longrightarrow>
        (case WriteMessage x c p opcode payload of
           (err, c', p') \<Rightarrow>
             closed c' = 0 \<and> onClose c' = onClose c \<and> deadlines (conn c') = deadlines (conn c)
             \<and> length (written (conn c')) = Suc (length (written (conn c)))))
   \<and> (closed c = 0 \<and> fst (SetDeadline x c p) = None \<longrightarrow>
        (case SetDeadline x c p of
           (err, c', p') \<Rightarrow>
             closed c' = 0 \<and> onClose c' = onClose c \<and> written (conn c') = written (conn c)
             \<and> p' = p))"
proof (intro conjI impI)
  show "emitError x c p None = (c, p)" by (simp add: emitError_def)
next
  assume a: "closed c = 0 \<and> fst (WriteMessage x c p opcode payload) = None"
  obtain err c' p' where w: "WriteMessage x c p opcode payload = (err, c', p')"
    by (cases "WriteMessage x c p opcode payload") auto
  with a have "err = None" by simp
  with a w WriteMessage_success [of c x p opcode payload c' p'] show
    "case WriteMessage x c p opcode payload of
       (err, c', p') \<Rightarrow>
         closed c' = 0 \<and> onClose c' = onClose c \<and> deadlines (conn c') = deadlines (conn c)
         \<and> length (written (conn c')) = Suc (length (written (conn c)))"
    by simp
next
  assume a: "closed c = 0 \<and> fst (SetDeadline x c p) = None"
  obtain err c' p' where w: "SetDeadline x c p = (err, c', p')"
    by (cases "SetDeadline x c p") auto
  with a have "err = None" by simp
  with a w SetDeadline_success [of c x p c' p'] show
    "case SetDeadline x c p of
       (err, c', p') \<Rightarrow>
         closed c' = 0 \<and> onClose c' = onClose c \<and> written (conn c') = written (conn c) \<and> p' = p"
    by simp
qed

theorem emitError_nil_noop_witness:
  "closed sample_Conn = 0
   \<and> fst (WriteMessage sample_Extern sample_Conn sample_Pool OpcodeText [0x61, 0x62]) = None
   \<and> closed (fst (snd (WriteMessage sample_Extern sample_Conn sample_Pool OpcodeText [0x61, 0x62]))) = 0
   \<and> fst (SetDeadline sample_Extern sample_Conn sample_Pool) = None
   \<and> closed (fst (snd (SetDeadline sample_Extern sample_Conn sample_Pool))) = 0"
  using emitError_nil_noop [of sample_Extern sample_Conn sample_Pool OpcodeText "[0x61, 0x62]"]
  by (simp add: sample_WriteMessage) (simp add: model_defs sample_defs)

section \<open>Properties: the UTF-8 check of the frame generator\<close>

text \<open>Claim C9. A write with the text opcode on a connection with UTF-8 checking enabled and a
  payload that is not valid UTF-8 fails in \<^verbatim>\<open>genFrame\<close> with the UnsupportedData error; the pool
  is as before (no buffer was acquired), the result does not depend on the compressor, and
  \<^verbatim>\<open>doWrite\<close> returns the error with the connection and its transport untouched. If the
  payload is valid UTF-8 or checking is disabled, the check passes: should \<^verbatim>\<open>genFrame\<close> still
  report that very error, it is the compressor that returned it.\<close>

theorem genFrame_text_utf8:
  "(CheckUtf8Enabled (config c) \<and> \<not> utf8_Valid payload \<longrightarrow>
      genFrame x c p OpcodeText payload = (Inl (InternalError CloseUnsupportedData ErrTextEncoding), p)
      \<and> doWrite x c p OpcodeText payload = (Some (InternalError CloseUnsupportedData ErrTextEncoding), c, p))
   \<and> (\<not> CheckUtf8Enabled (config c) \<or> utf8_Valid payload \<longrightarrow>
        isTextValid (config c) OpcodeText payload
        \<and> (fst (genFrame x c p OpcodeText payload) = Inl (InternalError CloseUnsupportedData ErrTextEncoding)
             \<longrightarrow> Compress x payload = Inl (InternalError CloseUnsupportedData ErrTextEncoding)))"
  by (auto simp: genFrame_def doWrite_def isTextValid_def compressData_def Let_def CloseUnsupportedData_def
      CloseMessageTooLarge_def
      split: prod.splits sum.splits option.splits if_splits)

theorem genFrame_text_utf8_witness:
  "CheckUtf8Enabled (config sample_Conn) \<and> \<not> utf8_Valid [0xFF]
   \<and> genFrame sample_Extern sample_Conn sample_Pool OpcodeText [0xFF] =
       (Inl (InternalError CloseUnsupportedData ErrTextEncoding), sample_Pool)
   \<and> utf8_Valid [0x61, 0x62]
   \<and> fst (genFrame sample_Extern sample_Conn sample_Pool OpcodeText [0x61, 0x62]) \<noteq>
       Inl (InternalError CloseUnsupportedData ErrTextEncoding)"
  using genFrame_text_utf8 [of sample_Conn "[0xFF]" sample_Extern sample_Pool]
    genFrame_text_utf8 [of sample_Conn "[0x61, 0x62]" sample_Extern sample_Pool]
  by (simp add: sample_defs)

section \<open>Properties: writes on a closed connection\<close>

lemma emitError_closed: "closed c \<noteq> 0 \<Longrightarrow> emitError x c p err = (c, p)"
  by (simp add: emitError_def CompareAndSwap_closed_def split: option.splits)

lemma WriteAsync_closed:
  assumes "isClosed c"
  shows "WriteAsync x c p opcode payload =
     (case genFrame x c p opcode payload of
        (Inl err, p1) \<Rightarrow> (Some err, c, p1)
      | (Inr (frame, index), p1) \<Rightarrow>
          (None, c\<lparr>writeQueue := writeQueue c @ [AsyncWriteTask frame index]\<rparr>, p1))"
  using assms
  by (auto simp: WriteAsync_def isClosed_def emitError_closed split: prod.splits sum.splits)

text \<open>What does hold on a connection whose closed flag is set: \<^verbatim>\<open>WriteMessage\<close> returns the
  connection-closed error and changes nothing; the task of \<^verbatim>\<open>WriteAsync\<close> returns without
  touching anything; \<^verbatim>\<open>doWrite\<close>, which sends the close frame during the transition, does not
  look at the flag and hands the frame to the transport whenever frame generation
  succeeds.\<close>

lemma closed_WriteMessage_and_doWrite:
  assumes "isClosed c"
  shows "WriteMessage x c p opcode payload = (Some ErrConnClosed, c, p)
    \<and> runAsyncWrite x c p frame index = (c, p)
    \<and> (case genFrame x c p opcode payload of
          (Inl e, p1) \<Rightarrow> doWrite x c p opcode payload = (Some e, c, p1)
        | (Inr (f, i), p1) \<Rightarrow>
            written (conn (fst (snd (doWrite x c p opcode payload)))) = written (conn c) @ [contents f])"
  using assms
  by (auto simp: WriteMessage_def runAsyncWrite_def doWrite_def WriteN_def
      split: prod.splits sum.splits list.splits)

text \<open>Claim C3 does not hold of the code. On the sample connection with the closed flag set,
  \<^verbatim>\<open>WriteMessage\<close> returns the connection-closed error and leaves connection and pool as they
  are, as the claim says. \<^verbatim>\<open>WriteAsync\<close> with the same arguments has no test of the flag on
  entry: it generates the frame, takes buffer 0 from the pool, queues its task and returns nil.
  The task, run on the closed connection, returns at once, so nothing reaches the transport and
  buffer 0 is never given back.\<close>

theorem WriteAsync_closed_no_error:
  "isClosed (sample_Conn\<lparr>closed := 1\<rparr>)
   \<and> WriteMessage sample_Extern (sample_Conn\<lparr>closed := 1\<rparr>) sample_Pool OpcodeBinary [0x61] =
       (Some ErrConnClosed, sample_Conn\<lparr>closed := 1\<rparr>, sample_Pool)
   \<and> WriteAsync sample_Extern (sample_Conn\<lparr>closed := 1\<rparr>) sample_Pool OpcodeBinary [0x61] =
       (None,
        sample_Conn\<lparr>closed := 1,
          writeQueue := [AsyncWriteTask \<lparr>buf_id = 0, contents = [0x82, 1, 0x61]\<rparr> 3]\<rparr>,
        \<lparr>next_id = 1, acquired = [0], released = []\<rparr>)
   \<and> fst (WriteAsync sample_Extern (sample_Conn\<lparr>closed := 1\<rparr>) sample_Pool OpcodeBinary [0x61])
        \<noteq> Some ErrConnClosed
   \<and> runAsyncWrite sample_Extern (sample_Conn\<lparr>closed := 1\<rparr>)
        \<lparr>next_id = 1, acquired = [0], released = []\<rparr>
        \<lparr>buf_id = 0, contents = [0x82, 1, 0x61]\<rparr> 3 =
       (sample_Conn\<lparr>closed := 1\<rparr>, \<lparr>next_id = 1, acquired = [0], released = []\<rparr>)"
  by (simp add: model_defs sample_defs)

section \<open>Properties: the close transition happens once\<close>

lemma doWrite_fields:
  "doWrite x c p opcode payload = (err, c', p') \<Longrightarrow>
     closed c' = closed c \<and> onClose c' = onClose c \<and> deadlines (conn c') = deadlines (conn c)
     \<and> writeQueue c' = writeQueue c \<and> config c' = config c
     \<and> length (written (conn c')) \<le> Suc (length (written (conn c)))"
  by (auto simp: doWrite_def WriteN_def split: prod.splits sum.splits list.splits)

lemma emitError_open:
  assumes "closed c = 0" and "emitError x c p (Some e) = (c', p')"
  shows "closed c' = 1 \<and> onClose c' = onClose c @ [responseErr_of e]
     \<and> length (written (conn c')) \<le> Suc (length (written (conn c)))"
proof -
  obtain werr c1 p1 where d: "doWrite x (c\<lparr>closed := 1\<rparr>) p OpcodeCloseConnection (emitError_content x e) = (werr, c1, p1)"
    by (metis prod_cases3)
  from doWrite_fields [OF d] d assms show ?thesis
    by (auto simp: emitError_def CompareAndSwap_closed_def net_SetDeadline_def
        split: prod.splits list.splits)
qed

lemma emitClose_open:
  assumes "closed c = 0" and "emitClose x c p buf = (r, c', p')"
  shows "closed c' = 1 \<and> length (onClose c') = Suc (length (onClose c))
     \<and> length (written (conn c')) \<le> Suc (length (written (conn c)))"
proof -
  obtain responseCode realCode reason where
    cs: "emitClose_codes (config c) buf = (responseCode, realCode, reason)"
    by (metis prod_cases3)
  obtain werr c1 p1 where d: "doWrite x (c\<lparr>closed := 1\<rparr>) p OpcodeCloseConnection (StatusCode_Bytes responseCode) = (werr, c1, p1)"
    by (metis prod_cases3)
  from doWrite_fields [OF d] d cs assms show ?thesis
    by (auto simp: emitClose_def CompareAndSwap_closed_def split: prod.splits)
qed

lemma emitClose_closed: "closed c \<noteq> 0 \<Longrightarrow> snd (emitClose x c p buf) = (c, p)"
  by (simp add: emitClose_def CompareAndSwap_closed_def split: prod.splits)

lemma fire_closed: "closed c \<noteq> 0 \<Longrightarrow> fire x t (c, p) = (c, p)"
  by (cases t) (simp_all add: emitError_closed emitClose_closed WriteClose_def)

lemma fire_open:
  assumes "closed c = 0" and "fire x t (c, p) = (c', p')"
  shows "closed c' = 1 \<and> length (onClose c') = Suc (length (onClose c))
     \<and> length (written (conn c')) \<le> Suc (length (written (conn c)))"
proof (cases t)
  case (ReadError e)
  with assms emitError_open [of c x p e c' p'] show ?thesis by simp
next
  case (WriteError e)
  with assms emitError_open [of c x p e c' p'] show ?thesis by simp
next
  case (PeerClose buf)
  obtain r where "emitClose x c p buf = (r, c', p')"
    using assms(2) PeerClose by (cases "emitClose x c p buf") simp
  with assms(1) emitClose_open show ?thesis by blast
next
  case (ExplicitClose code reason)
  with assms show ?thesis
    using emitError_open [of c x p _ c' p'] by (simp add: WriteClose_def Let_def split: if_splits)
qed

lemma fold_fire_closed: "closed c \<noteq> 0 \<Longrightarrow> fold (fire x) ts (c, p) = (c, p)"
  by (induction ts) (simp_all add: fire_closed)

lemma fold_fire_open:
  assumes "closed c = 0" and "ts \<noteq> []"
  shows "fold (fire x) ts (c, p) = fire x (hd ts) (c, p)"
proof -
  obtain t us where ts: "ts = t # us" using assms(2) by (cases ts) auto
  obtain c' p' where f: "fire x t (c, p) = (c', p')" by (cases "fire x t (c, p)")
  from fire_open [OF assms(1) f] have "closed c' \<noteq> 0" by simp
  then show ?thesis using ts f by (simp add: fold_fire_closed)
qed

lemma exactly_once_sequential:
  assumes "closed c = 0" and "ts \<noteq> []"
  shows "(case fold (fire x) ts (c, p) of
           (c', p') \<Rightarrow>
             closed c' = 1 \<and> length (onClose c') = Suc (length (onClose c))
             \<and> length (written (conn c')) \<le> Suc (length (written (conn c))))
         \<and> fold (fire x) ts (c, p) = fire x (hd ts) (c, p)
         \<and> (\<forall>n. 0 < n \<and> n < length ts \<longrightarrow>
               fire x (ts ! n) (fold (fire x) (take n ts) (c, p)) = fold (fire x) (take n ts) (c, p))"
proof (intro conjI allI impI)
  obtain c' p' where f: "fire x (hd ts) (c, p) = (c', p')" by (cases "fire x (hd ts) (c, p)")
  from fire_open [OF assms(1) f] f fold_fire_open [OF assms, of x p]
  show "case fold (fire x) ts (c, p) of
           (c', p') \<Rightarrow>
             closed c' = 1 \<and> length (onClose c') = Suc (length (onClose c))
             \<and> length (written (conn c')) \<le> Suc (length (written (conn c)))"
    by simp
next
  show "fold (fire x) ts (c, p) = fire x (hd ts) (c, p)" by (rule fold_fire_open [OF assms])
next
  fix n assume n: "0 < n \<and> n < length ts"
  then have ne: "take n ts \<noteq> []" by auto
  obtain c' p' where f: "fire x (hd (take n ts)) (c, p) = (c', p')"
    by (cases "fire x (hd (take n ts)) (c, p)")
  from fire_open [OF assms(1) f] have "closed c' \<noteq> 0" by simp
  with f fold_fire_open [OF assms(1) ne, of x p]
  show "fire x (ts ! n) (fold (fire x) (take n ts) (c, p)) = fold (fire x) (take n ts) (c, p)"
    by (simp add: fire_closed)
qed

lemma doWrite_config:
  "doWrite x c p opcode payload = (err, c', p') \<Longrightarrow> config c' = config c"
  by (auto simp: doWrite_def split: prod.splits sum.splits)

lemma thread_alone:
  "fold (sys_step x) [0, 0, 0, 0, 0] ([(t, AtCAS)], c, p) = ([(t, Finished)], fire x t (c, p))"
proof (cases "closed c = 0")
  case False
  then have "fire x t (c, p) = (c, p)" by (rule fire_closed)
  with False show ?thesis by (simp add: CompareAndSwap_closed_def)
next
  case True
  let ?c0 = "c\<lparr>closed := 1\<rparr>"
  obtain werr c1 p1 where d: "doWrite x ?c0 p OpcodeCloseConnection (close_payload x ?c0 t) = (werr, c1, p1)"
    by (metis prod_cases3)
  note cfg = doWrite_config [OF d]
  show ?thesis
  proof (cases t)
    case (ReadError e)
    with True d show ?thesis
      by (simp add: CompareAndSwap_closed_def close_payload_def callback_arg_def emitError_def
          split: prod.splits)
  next
    case (WriteError e)
    with True d show ?thesis
      by (simp add: CompareAndSwap_closed_def close_payload_def callback_arg_def emitError_def
          split: prod.splits)
  next
    case (PeerClose buf)
    with True d cfg show ?thesis
      by (auto simp: CompareAndSwap_closed_def close_payload_def callback_arg_def emitClose_def
          split: prod.splits)
  next
    case (ExplicitClose code reason)
    with True d show ?thesis
      by (simp add: CompareAndSwap_closed_def close_payload_def callback_arg_def emitError_def
          WriteClose_def Let_def split: prod.splits)
  qed
qed

lemma count_list_update:
  "i < length xs \<Longrightarrow>
     count_list (xs[i := y]) a + (if xs ! i = a then 1 else 0) = count_list xs a + (if y = a then 1 else 0)"
proof (induction xs arbitrary: i)
  case Nil
  then show ?case by simp
next
  case (Cons x xs)
  show ?case
  proof (cases i)
    case 0
    then show ?thesis by simp
  next
    case (Suc j)
    with Cons.prems have "j < length xs" by simp
    from Cons.IH [OF this] Suc show ?thesis by (auto split: if_splits)
  qed
qed

lemma count_pc_update:
  assumes "i < length ths" and "ths ! i = (t, a)"
  shows "count_list (map snd (ths[i := (t', b)])) q + (if a = q then 1 else 0)
       = count_list (map snd ths) q + (if b = q then 1 else 0)"
  using count_list_update [of i "map snd ths" b q] assms by (simp add: map_update)

lemma sys_step_inv:
  assumes inv: "close_inv o0 w0 st"
  shows "close_inv o0 w0 (sys_step x i st)"
proof -
  obtain ths c p where st: "st = (ths, c, p)" by (cases st)
  show ?thesis
  proof (cases "i < length ths")
    case False
    with inv st show ?thesis by simp
  next
    case True
    obtain t a where thi: "ths ! i = (t, a)" by (cases "ths ! i")
    note cu = count_pc_update [OF True thi]
    from inv st have I:
      "closed c = 0 \<or> closed c = 1"
      "closed c = 0 \<Longrightarrow> in_progress ths + count_list (map snd ths) Finished = 0
                \<and> length (onClose c) = o0 \<and> length (written (conn c)) = w0"
      "closed c = 1 \<Longrightarrow> in_progress ths \<le> 1
                \<and> length (onClose c) = (if in_progress ths = 0 then Suc o0 else o0)
                \<and> length (written (conn c)) \<le> Suc w0
                \<and> (count_list (map snd ths) AtWrite = 1 \<longrightarrow> length (written (conn c)) = w0)"
      by (simp_all add: close_inv_def)
    show ?thesis
    proof (cases a)
      case AtCAS
      show ?thesis
      proof (cases "closed c = 0")
        case c0: True
        then have s: "sys_step x i st = (ths[i := (t, AtWrite)], c\<lparr>closed := 1\<rparr>, p)"
          using st True thi AtCAS by (simp add: CompareAndSwap_closed_def)
        from cu [of t AtWrite AtWrite] cu [of t AtWrite AtDeadline] cu [of t AtWrite AtCallback]
          cu [of t AtWrite Finished] AtCAS I(2) [OF c0]
        show ?thesis unfolding s close_inv_def in_progress_def by simp
      next
        case False
        with I(1) have c1: "closed c = 1" by simp
        then have s: "sys_step x i st = (ths[i := (t, Finished)], c, p)"
          using st True thi AtCAS by (simp add: CompareAndSwap_closed_def)
        from cu [of t Finished AtWrite] cu [of t Finished AtDeadline] cu [of t Finished AtCallback]
          AtCAS I(3) [OF c1] c1
        show ?thesis unfolding s close_inv_def in_progress_def by simp
      qed
    next
      case AtWrite
      obtain werr c1 p1 where d: "doWrite x c p OpcodeCloseConnection (close_payload x c t) = (werr, c1, p1)"
        by (metis prod_cases3)
      note f = doWrite_fields [OF d]
      let ?b = "case t of PeerClose buf \<Rightarrow> AtCallback | _ \<Rightarrow> AtDeadline"
      have b: "?b = AtCallback \<or> ?b = AtDeadline" by (cases t) simp_all
      have s: "sys_step x i st = (ths[i := (t, ?b)], c1, p1)"
        using st True thi AtWrite d by simp
      from cu [of t ?b AtWrite] b AtWrite have nw: "count_list (map snd ths) AtWrite \<ge> 1" by auto
      then have ip: "in_progress ths \<ge> 1" by (simp add: in_progress_def)
      with I(1,2) have c1: "closed c = 1" by auto
      from cu [of t ?b AtWrite] cu [of t ?b AtDeadline] cu [of t ?b AtCallback] b AtWrite
        I(3) [OF c1] nw f c1
      show ?thesis unfolding s close_inv_def in_progress_def by auto
    next
      case AtDeadline
      obtain derr nc where n: "net_SetDeadline (conn c) = (derr, nc)" by (cases "net_SetDeadline (conn c)")
      then have wr: "written nc = written (conn c)"
        by (auto simp: net_SetDeadline_def split: list.splits)
      have s: "sys_step x i st = (ths[i := (t, AtCallback)], c\<lparr>conn := nc\<rparr>, p)"
        using st True thi AtDeadline n by simp
      from cu [of t AtCallback AtDeadline] AtDeadline have nd: "count_list (map snd ths) AtDeadline \<ge> 1"
        by auto
      then have ip: "in_progress ths \<ge> 1" by (simp add: in_progress_def)
      with I(1,2) have c1: "closed c = 1" by auto
      from cu [of t AtCallback AtWrite] cu [of t AtCallback AtDeadline] cu [of t AtCallback AtCallback]
        AtDeadline I(3) [OF c1] nd wr c1
      show ?thesis unfolding s close_inv_def in_progress_def by auto
    next
      case AtCallback
      have s: "sys_step x i st = (ths[i := (t, Finished)], c\<lparr>onClose := onClose c @ [callback_arg c t]\<rparr>, p)"
        using st True thi AtCallback by simp
      from cu [of t Finished AtCallback] AtCallback have nc: "count_list (map snd ths) AtCallback \<ge> 1"
        by auto
      then have ip: "in_progress ths \<ge> 1" by (simp add: in_progress_def)
      with I(1,2) have c1: "closed c = 1" by auto
      from cu [of t Finished AtWrite] cu [of t Finished AtDeadline] cu [of t Finished AtCallback]
        AtCallback I(3) [OF c1] nc c1
      show ?thesis unfolding s close_inv_def in_progress_def by auto
    next
      case Finished
      have "ths[i := (t, Finished)] = ths" using thi Finished by (metis list_update_id)
      then have "sys_step x i st = st" using st True thi Finished by simp
      with inv show ?thesis by simp
    qed
  qed
qed

lemma run_close_inv:
  "close_inv o0 w0 st \<Longrightarrow> close_inv o0 w0 (fold (sys_step x) sch st)"
  by (induction sch arbitrary: st) (simp_all add: sys_step_inv)

lemma count_pcs_init:
  "count_list (map (snd \<circ> (\<lambda>t. (t, AtCAS))) ts) q = (if q = AtCAS then length ts else 0)"
  by (induction ts) auto

lemma init_close_inv:
  assumes "closed c = 0"
  shows "close_inv (length (onClose c)) (length (written (conn c))) (map (\<lambda>t. (t, AtCAS)) ts, c, p)"
  using assms by (simp add: close_inv_def in_progress_def count_pcs_init)

lemma all_Finished_counts:
  assumes "list_all (\<lambda>th. snd th = Finished) ths"
  shows "in_progress ths = 0 \<and> count_list (map snd ths) Finished = length ths"
  using assms by (induction ths) (auto simp: in_progress_def)

lemma sys_step_length: "length (fst (sys_step x i st)) = length (fst st)"
  by (cases st) (auto split: prod.splits)

lemma run_length: "length (fst (fold (sys_step x) sch st)) = length (fst st)"
  by (induction sch arbitrary: st) (simp_all add: sys_step_length)

lemma interleaved_close:
  assumes "closed c = 0" and "ts \<noteq> []"
  shows "case fold (sys_step x) sch (map (\<lambda>t. (t, AtCAS)) ts, c, p) of
           (ths, c', p') \<Rightarrow>
             length (onClose c') \<le> Suc (length (onClose c))
             \<and> length (written (conn c')) \<le> Suc (length (written (conn c)))
             \<and> (list_all (\<lambda>th. snd th = Finished) ths \<longrightarrow>
                   closed c' = 1 \<and> length (onClose c') = Suc (length (onClose c)))"
proof -
  let ?st0 = "(map (\<lambda>t. (t, AtCAS)) ts, c, p)"
  obtain ths c' p' where r: "fold (sys_step x) sch ?st0 = (ths, c', p')"
    by (metis prod_cases3)
  from run_close_inv [OF init_close_inv [OF assms(1)], where ts1 = ts and p1 = p and x = x and sch = sch] r
  have I: "close_inv (length (onClose c)) (length (written (conn c))) (ths, c', p')" by simp
  from run_length [of x sch ?st0] r assms(2) have len: "length ths \<ge> 1"
    by (cases ts) simp_all
  have "length (onClose c') \<le> Suc (length (onClose c))"
    and "length (written (conn c')) \<le> Suc (length (written (conn c)))"
    using I by (auto simp: close_inv_def split: if_splits)
  moreover have "closed c' = 1 \<and> length (onClose c') = Suc (length (onClose c))"
    if "list_all (\<lambda>th. snd th = Finished) ths"
  proof -
    from all_Finished_counts [OF that] len
    have "in_progress ths = 0" and "count_list (map snd ths) Finished \<ge> 1" by simp_all
    with I show ?thesis by (auto simp: close_inv_def)
  qed
  ultimately show ?thesis using r by simp
qed

text \<open>Claim C1. Let any non-empty collection of close triggers (read errors, write errors, peer
  close frames, explicit \<^verbatim>\<open>WriteClose\<close> calls) hit an open connection. Applied one after the
  other in any order, they leave the connection closed, with the close callback invoked exactly
  once more and at most one frame, the close frame, handed to the transport; the first trigger
  alone made the transition, and each later trigger finds the connection closed and leaves
  connection, transport and pool as they are. Run as concurrent threads under any schedule
  (a thread on its own does what the trigger does), there is never more than one more
  callback call nor more than one more write, and once all threads are finished the connection
  is closed and the callback has been invoked exactly once more.\<close>

theorem exactly_once_close:
  assumes "closed c = 0" and "ts \<noteq> []"
  shows "(case fold (fire x) ts (c, p) of
           (c', p') \<Rightarrow>
             closed c' = 1 \<and> length (onClose c') = Suc (length (onClose c))
             \<and> length (written (conn c')) \<le> Suc (length (written (conn c))))
         \<and> fold (fire x) ts (c, p) = fire x (hd ts) (c, p)
         \<and> (\<forall>n. 0 < n \<and> n < length ts \<longrightarrow>
               fire x (ts ! n) (fold (fire x) (take n ts) (c, p)) = fold (fire x) (take n ts) (c, p))
         \<and> fold (sys_step x) [0, 0, 0, 0, 0] ([(t, AtCAS)], c, p) = ([(t, Finished)], fire x t (c, p))
         \<and> (case fold (sys_step x) sch (map (\<lambda>t. (t, AtCAS)) ts, c, p) of
               (ths, c', p') \<Rightarrow>
                 length (onClose c') \<le> Suc (length (onClose c))
                 \<and> length (written (conn c')) \<le> Suc (length (written (conn c)))
                 \<and> (list_all (\<lambda>th. snd th = Finished) ths \<longrightarrow>
                       closed c' = 1 \<and> length (onClose c') = Suc (length (onClose c))))"
proof -
  note A = exactly_once_sequential [OF assms, where x = x and p = p]
  note B = interleaved_close [OF assms, where x = x and sch = sch and p = p]
  note C = thread_alone [where x = x and t = t and c = c and p = p]
  show ?thesis
    by (rule conjI [OF A [THEN conjunct1] conjI [OF A [THEN conjunct2, THEN conjunct1]
          conjI [OF A [THEN conjunct2, THEN conjunct2] conjI [OF C B]]]])
qed

theorem exactly_once_close_witness:
  "closed sample_Conn = 0
   \<and> length (onClose (fst (fold (fire sample_Extern)
        [WriteError (ErrorString [0x65]), PeerClose [0x03, 0xE8], ExplicitClose 1000 [], ReadError (StatusCodeErr 1000)]
        (sample_Conn, sample_Pool)))) = 1
   \<and> written (conn (fst (fold (fire sample_Extern)
        [WriteError (ErrorString [0x65]), PeerClose [0x03, 0xE8], ExplicitClose 1000 [], ReadError (StatusCodeErr 1000)]
        (sample_Conn, sample_Pool)))) = [[0x88, 3, 0x03, 0xE8, 0x65]]
   \<and> fold (sys_step sample_Extern) [0, 1, 1, 0, 2, 3, 1, 1, 0, 0, 2, 2, 1, 3]
        (map (\<lambda>t. (t, AtCAS))
           [WriteError (ErrorString [0x65]), PeerClose [0x03, 0xE8], ExplicitClose 1000 [], ReadError (StatusCodeErr 1000)],
         sample_Conn, sample_Pool) =
       ([(WriteError (ErrorString [0x65]), Finished), (PeerClose [0x03, 0xE8], Finished),
         (ExplicitClose 1000 [], Finished), (ReadError (StatusCodeErr 1000), Finished)],
        sample_Conn\<lparr>closed := 1, onClose := [ErrorString [0x65]],
          conn := \<lparr>written = [[0x88, 3, 0x03, 0xE8, 0x65]], deadlines = 1, outcomes = []\<rparr>\<rparr>,
        \<lparr>next_id = 1, acquired = [0], released = [Some 0]\<rparr>)"
  using exactly_once_close [where c = sample_Conn
      and ts = "[WriteError (ErrorString [0x65]), PeerClose [0x03, 0xE8], ExplicitClose 1000 [], ReadError (StatusCodeErr 1000)]"
      and x = sample_Extern and p = sample_Pool and t = "ExplicitClose 1000 []"
      and sch = "[0, 1, 1, 0, 2, 3, 1, 1, 0, 0, 2, 2, 1, 3]"]
  by (simp add: model_defs sample_defs close_payload_def callback_arg_def)

section \<open>Properties: the close frame of the error path\<close>

lemma BigEndian_StatusCode_Bytes:
  "BigEndian_Uint16 (ucast (drop_bit 8 (w :: 16 word))) (ucast w) = w"
  unfolding BigEndian_Uint16_def
  by (rule bit_eqI) (auto simp: bit_simps)

lemma length_StatusCode_Bytes: "length (StatusCode_Bytes code) = 2"
  by (simp add: StatusCode_Bytes_def)

lemma emitError_content_length: "length (emitError_content x e) \<le> ThresholdV1 x"
proof (cases "length (StatusCode_Bytes (responseCode_of e) @ Error_text x e) > ThresholdV1 x")
  case True
  then show ?thesis by (simp add: emitError_content_def Let_def)
next
  case False
  then show ?thesis by (simp add: emitError_content_def Let_def)
qed

lemma emitError_content_code:
  assumes "2 \<le> ThresholdV1 x"
  shows "take 2 (emitError_content x e) = StatusCode_Bytes (responseCode_of e)"
  using assms by (simp add: emitError_content_def Let_def length_StatusCode_Bytes)

lemma emitError_content_reason:
  assumes "2 \<le> ThresholdV1 x"
  shows "drop 2 (emitError_content x e) = take (ThresholdV1 x - 2) (Error_text x e)"
  using assms by (simp add: emitError_content_def Let_def length_StatusCode_Bytes drop_take)

lemma emitError_content_BigEndian:
  assumes "2 \<le> ThresholdV1 x"
  shows "BigEndian_Uint16 (emitError_content x e ! 0) (emitError_content x e ! 1) = responseCode_of e"
proof -
  have "emitError_content x e ! 0 = take 2 (emitError_content x e) ! 0"
    and "emitError_content x e ! 1 = take 2 (emitError_content x e) ! 1"
    by simp_all
  then show ?thesis
    by (simp only: emitError_content_code [OF assms])
       (simp add: StatusCode_Bytes_def BigEndian_StatusCode_Bytes)
qed

lemma emitError_transition:
  assumes "closed c = 0"
  shows "(case emitError x c p (Some e) of
           (c', p') \<Rightarrow>
             closed c' = 1 \<and> onClose c' = onClose c @ [responseErr_of e]
             \<and> written (conn c') = written (conn c) @
                 (case fst (genFrame x (c\<lparr>closed := 1\<rparr>) p OpcodeCloseConnection (emitError_content x e)) of
                    Inl err \<Rightarrow> []
                  | Inr (f, i) \<Rightarrow> [contents f]))"
  using assms
  by (auto simp: emitError_def CompareAndSwap_closed_def doWrite_def WriteN_def net_SetDeadline_def
      split: prod.splits sum.splits list.splits)

lemma genFrame_close_server:
  assumes "isServer c" and "int (length payload) \<le> WriteMaxPayloadSize (config c)"
  shows "\<exists>f i p'. genFrame x c p OpcodeCloseConnection payload = (Inr (f, i), p')
     \<and> contents f = fst (GenerateHeader (maskKey x) True True False OpcodeCloseConnection (int (length payload))) @ payload"
  using assms
  by (auto simp: genFrame_def Let_def Pool_Get_def split: prod.splits)

text \<open>Claim C8. The payload that \<^verbatim>\<open>emitError\<close> gives to the close frame is never longer than the
  threshold. With a threshold of at least two bytes it starts with the two bytes of the status
  code, big-endian (reading them back gives the response code), followed by the text of the
  error cut to what the threshold leaves: only the text is truncated. The write is best effort:
  whatever the transport answers, the transition sets the closed flag, invokes the close
  callback with the response error, and has handed the frame to the transport once if frame
  generation succeeded and not at all otherwise; on a server whose payload limit admits the
  payload, the frame on the wire is the header followed by exactly this payload.\<close>

theorem close_frame_payload:
  assumes "2 \<le> ThresholdV1 x"
  shows "length (emitError_content x e) \<le> ThresholdV1 x
     \<and> take 2 (emitError_content x e) = StatusCode_Bytes (responseCode_of e)
     \<and> BigEndian_Uint16 (emitError_content x e ! 0) (emitError_content x e ! 1) = responseCode_of e
     \<and> drop 2 (emitError_content x e) = take (ThresholdV1 x - 2) (Error_text x e)
     \<and> (closed c = 0 \<longrightarrow>
          (case emitError x c p (Some e) of
             (c', p') \<Rightarrow>
               closed c' = 1 \<and> onClose c' = onClose c @ [responseErr_of e]
               \<and> written (conn c') = written (conn c) @
                   (case fst (genFrame x (c\<lparr>closed := 1\<rparr>) p OpcodeCloseConnection (emitError_content x e)) of
                      Inl err \<Rightarrow> []
                    | Inr (f, i) \<Rightarrow> [contents f])))
     \<and> (closed c = 0 \<and> isServer c \<and> int (length (emitError_content x e)) \<le> WriteMaxPayloadSize (config c) \<longrightarrow>
          written (conn (fst (emitError x c p (Some e)))) = written (conn c) @
            [fst (GenerateHeader (maskKey x) True True False OpcodeCloseConnection
                   (int (length (emitError_content x e)))) @ emitError_content x e])"
proof (intro conjI impI)
  assume a: "closed c = 0 \<and> isServer c \<and> int (length (emitError_content x e)) \<le> WriteMaxPayloadSize (config c)"
  then have "isServer (c\<lparr>closed := 1\<rparr>)"
    and "int (length (emitError_content x e)) \<le> WriteMaxPayloadSize (config (c\<lparr>closed := 1\<rparr>))"
    by simp_all
  from genFrame_close_server [OF this, where x = x and p = p] obtain f i p' where
    g: "genFrame x (c\<lparr>closed := 1\<rparr>) p OpcodeCloseConnection (emitError_content x e) = (Inr (f, i), p')"
    and cf: "contents f = fst (GenerateHeader (maskKey x) True True False OpcodeCloseConnection
                   (int (length (emitError_content x e)))) @ emitError_content x e"
    by blast
  from a emitError_transition [where c = c and x = x and p = p and e = e] g cf
  show "written (conn (fst (emitError x c p (Some e)))) = written (conn c) @
            [fst (GenerateHeader (maskKey x) True True False OpcodeCloseConnection
                   (int (length (emitError_content x e)))) @ emitError_content x e]"
    by (auto split: prod.splits)
next
  show "BigEndian_Uint16 (emitError_content x e ! 0) (emitError_content x e ! 1) = responseCode_of e"
    by (rule emitError_content_BigEndian [OF assms])
qed (simp_all add: emitError_content_length emitError_content_code [OF assms]
      emitError_content_reason [OF assms] emitError_transition)

theorem close_frame_payload_witness:
  "2 \<le> ThresholdV1 (sample_Extern\<lparr>ThresholdV1 := 4\<rparr>)
   \<and> emitError_content (sample_Extern\<lparr>ThresholdV1 := 4\<rparr>) (ErrorString [0x61, 0x62, 0x63]) = [0x03, 0xE8, 0x61, 0x62]
   \<and> closed sample_Conn = 0 \<and> isServer sample_Conn
   \<and> written (conn (fst (emitError (sample_Extern\<lparr>ThresholdV1 := 4\<rparr>) sample_Conn sample_Pool
        (Some (ErrorString [0x61, 0x62, 0x63]))))) = [[0x88, 4, 0x03, 0xE8, 0x61, 0x62]]"
  using close_frame_payload [of "sample_Extern\<lparr>ThresholdV1 := 4\<rparr>" "ErrorString [0x61, 0x62, 0x63]"
      sample_Conn sample_Pool]
  by (simp add: model_defs sample_defs)

section \<open>Properties: the size limit of the frame generator\<close>

text \<open>Three observations on the sample connection, whose limit is eight bytes. A text payload
  of nine bytes that is not valid UTF-8, with UTF-8 checking on: the final payload length
  exceeds the limit, and frame generation fails with UnsupportedData, not with MessageTooLarge.
  A binary payload of nine bytes without compression: \<^verbatim>\<open>WriteMessage\<close> and \<^verbatim>\<open>WriteAsync\<close>
  return MessageTooLarge, and the transport, empty before, has received a frame, the close
  frame of the transition that the error starts. The same nine bytes, one more than the limit,
  with compression: the compressor's two bytes are within the limit and frame generation
  succeeds.\<close>

theorem oversize_counterexample:
  "finalPayloadSize sample_Extern (sample_Conn\<lparr>compressEnabled := False\<rparr>) OpcodeText
       [0xFF, 0, 0, 0, 0, 0, 0, 0, 0] = Some 9
   \<and> WriteMaxPayloadSize (config sample_Conn) = 8
   \<and> fst (genFrame sample_Extern (sample_Conn\<lparr>compressEnabled := False\<rparr>) sample_Pool OpcodeText
       [0xFF, 0, 0, 0, 0, 0, 0, 0, 0]) = Inl (InternalError CloseUnsupportedData ErrTextEncoding)
   \<and> fst (genFrame sample_Extern (sample_Conn\<lparr>compressEnabled := False\<rparr>) sample_Pool OpcodeText
       [0xFF, 0, 0, 0, 0, 0, 0, 0, 0]) \<noteq> Inl (StatusCodeErr CloseMessageTooLarge)
   \<and> finalPayloadSize sample_Extern (sample_Conn\<lparr>compressEnabled := False\<rparr>) OpcodeBinary
       [1, 2, 3, 4, 5, 6, 7, 8, 9] = Some 9
   \<and> fst (WriteMessage sample_Extern (sample_Conn\<lparr>compressEnabled := False\<rparr>) sample_Pool OpcodeBinary
       [1, 2, 3, 4, 5, 6, 7, 8, 9]) = Some (StatusCodeErr CloseMessageTooLarge)
   \<and> written (conn (sample_Conn\<lparr>compressEnabled := False\<rparr>)) = []
   \<and> written (conn (fst (snd (WriteMessage sample_Extern (sample_Conn\<lparr>compressEnabled := False\<rparr>)
       sample_Pool OpcodeBinary [1, 2, 3, 4, 5, 6, 7, 8, 9])))) = [[0x88, 5, 0x03, 0xF1, 0x65, 0x72, 0x72]]
   \<and> written (conn (fst (snd (WriteAsync sample_Extern (sample_Conn\<lparr>compressEnabled := False\<rparr>)
       sample_Pool OpcodeBinary [1, 2, 3, 4, 5, 6, 7, 8, 9])))) = [[0x88, 5, 0x03, 0xF1, 0x65, 0x72, 0x72]]
   \<and> int (length [1, 2, 3, 4, 5, 6, 7, 8, 9 :: byte]) = WriteMaxPayloadSize (config sample_Conn) + 1
   \<and> fst (genFrame sample_Extern sample_Conn sample_Pool OpcodeBinary [1, 2, 3, 4, 5, 6, 7, 8, 9]) =
       Inr (\<lparr>buf_id = 0, contents = [0xC2, 2, 1, 2]\<rparr>, 3)"
  by (simp add: finalPayloadSize_def model_defs sample_defs)

lemma genFrame_oversize:
  assumes "opcode = OpcodeText \<longrightarrow> isTextValid (config c) opcode payload"
    and "finalPayloadSize x c opcode payload = Some n"
    and "n > WriteMaxPayloadSize (config c)"
  shows "fst (genFrame x c p opcode payload) = Inl (StatusCodeErr CloseMessageTooLarge)"
  using assms
  by (auto simp: finalPayloadSize_def genFrame_def compressData_def Let_def frameHeaderSize_def
      split: if_splits sum.splits prod.splits)

text \<open>What the write calls do when frame generation fails: \<^verbatim>\<open>doWrite\<close> returns the error and
  leaves the connection alone; \<^verbatim>\<open>WriteAsync\<close>, and \<^verbatim>\<open>WriteMessage\<close> on a connection that is
  not closed, return it and hand it to \<^verbatim>\<open>emitError\<close>.\<close>

lemma write_calls_on_genFrame_error:
  assumes "fst (genFrame x c p opcode payload) = Inl e"
  shows "doWrite x c p opcode payload = (Some e, c, snd (genFrame x c p opcode payload))"
    and "WriteAsync x c p opcode payload =
           (Some e, emitError x c (snd (genFrame x c p opcode payload)) (Some e))"
    and "\<not> isClosed c \<Longrightarrow> WriteMessage x c p opcode payload =
           (Some e, emitError x c (snd (genFrame x c p opcode payload)) (Some e))"
    and "isClosed c \<Longrightarrow> WriteMessage x c p opcode payload = (Some ErrConnClosed, c, p)"
  using assms
  by (auto simp: doWrite_def WriteAsync_def WriteMessage_def split: prod.splits sum.splits)

text \<open>Claim C4, as amended. For every write call whose payload passes the UTF-8 check at the head
  of \<^verbatim>\<open>genFrame\<close>: if the final frame payload length (the compressed length on the compression
  path, the length of the payload otherwise) exceeds \<^verbatim>\<open>WriteMaxPayloadSize\<close>, frame generation
  fails with MessageTooLarge and no byte of the message reaches the transport. \<^verbatim>\<open>doWrite\<close>
  returns the error with the connection unchanged. \<^verbatim>\<open>WriteAsync\<close>, and \<^verbatim>\<open>WriteMessage\<close> on a
  connection that is not closed, return the error and are otherwise \<^verbatim>\<open>emitError\<close> applied to
  it (\<^verbatim>\<open>WriteMessage\<close> on a closed connection returns the connection-closed error before any
  frame is generated). That call changes nothing if the closed flag is set; on an open
  connection it is the close transition, and what it hands to the transport is the close frame
  for MessageTooLarge if that frame can be generated, nothing otherwise.\<close>

theorem oversize_rejected:
  assumes "opcode = OpcodeText \<longrightarrow> isTextValid (config c) opcode payload"
    and "finalPayloadSize x c opcode payload = Some n"
    and "n > WriteMaxPayloadSize (config c)"
  shows "fst (genFrame x c p opcode payload) = Inl (StatusCodeErr CloseMessageTooLarge)
     \<and> doWrite x c p opcode payload =
         (Some (StatusCodeErr CloseMessageTooLarge), c, snd (genFrame x c p opcode payload))
     \<and> WriteAsync x c p opcode payload =
         (Some (StatusCodeErr CloseMessageTooLarge),
          emitError x c (snd (genFrame x c p opcode payload)) (Some (StatusCodeErr CloseMessageTooLarge)))
     \<and> (\<not> isClosed c \<longrightarrow>
          WriteMessage x c p opcode payload =
            (Some (StatusCodeErr CloseMessageTooLarge),
             emitError x c (snd (genFrame x c p opcode payload)) (Some (StatusCodeErr CloseMessageTooLarge))))
     \<and> (isClosed c \<longrightarrow> WriteMessage x c p opcode payload = (Some ErrConnClosed, c, p))
     \<and> (closed c \<noteq> 0 \<longrightarrow>
          emitError x c (snd (genFrame x c p opcode payload)) (Some (StatusCodeErr CloseMessageTooLarge)) =
            (c, snd (genFrame x c p opcode payload)))
     \<and> (closed c = 0 \<longrightarrow>
          written (conn (fst (emitError x c (snd (genFrame x c p opcode payload))
                                (Some (StatusCodeErr CloseMessageTooLarge))))) =
            written (conn c) @
              (case fst (genFrame x (c\<lparr>closed := 1\<rparr>) (snd (genFrame x c p opcode payload))
                          OpcodeCloseConnection
                          (emitError_content x (StatusCodeErr CloseMessageTooLarge))) of
                 Inl err \<Rightarrow> []
               | Inr (f, i) \<Rightarrow> [contents f]))"
proof -
  note g = genFrame_oversize [OF assms, of p]
  note w = write_calls_on_genFrame_error [OF g]
  have t: "closed c = 0 \<Longrightarrow>
          written (conn (fst (emitError x c (snd (genFrame x c p opcode payload))
                                (Some (StatusCodeErr CloseMessageTooLarge))))) =
            written (conn c) @
              (case fst (genFrame x (c\<lparr>closed := 1\<rparr>) (snd (genFrame x c p opcode payload))
                          OpcodeCloseConnection
                          (emitError_content x (StatusCodeErr CloseMessageTooLarge))) of
                 Inl err \<Rightarrow> []
               | Inr (f, i) \<Rightarrow> [contents f])"
    using emitError_transition [where c = c and x = x and p = "snd (genFrame x c p opcode payload)"
        and e = "StatusCodeErr CloseMessageTooLarge"]
    by (auto split: prod.splits)
  show ?thesis
    using g w t emitError_closed [where c = c and x = x] by simp
qed

theorem oversize_rejected_witness:
  "isTextValid (config sample_Conn) OpcodeText [0x61, 0x62, 0x63, 0x64]
   \<and> finalPayloadSize (sample_Extern\<lparr>Compress := tripling_Compress\<rparr>) sample_Conn OpcodeText
        [0x61, 0x62, 0x63, 0x64] = Some 12
   \<and> finalPayloadSize sample_Extern (sample_Conn\<lparr>compressEnabled := False\<rparr>) OpcodeBinary
        [1, 2, 3, 4, 5, 6, 7, 8, 9] = Some 9
   \<and> WriteMaxPayloadSize (config sample_Conn) = 8
   \<and> \<not> isClosed sample_Conn \<and> closed sample_Conn = 0
   \<and> fst (doWrite (sample_Extern\<lparr>Compress := tripling_Compress\<rparr>) sample_Conn sample_Pool OpcodeText
        [0x61, 0x62, 0x63, 0x64]) = Some (StatusCodeErr CloseMessageTooLarge)
   \<and> doWrite sample_Extern (sample_Conn\<lparr>compressEnabled := False\<rparr>) sample_Pool OpcodeBinary
        [1, 2, 3, 4, 5, 6, 7, 8, 9] =
       (Some (StatusCodeErr CloseMessageTooLarge), sample_Conn\<lparr>compressEnabled := False\<rparr>, sample_Pool)
   \<and> WriteMessage sample_Extern (sample_Conn\<lparr>compressEnabled := False\<rparr>) sample_Pool OpcodeBinary
        [1, 2, 3, 4, 5, 6, 7, 8, 9] =
       (Some (StatusCodeErr CloseMessageTooLarge),
        sample_Conn\<lparr>compressEnabled := False, closed := 1, onClose := [StatusCodeErr CloseNormalClosure],
          conn := \<lparr>written = [[0x88, 5, 0x03, 0xF1, 0x65, 0x72, 0x72]], deadlines = 1, outcomes = []\<rparr>\<rparr>,
        \<lparr>next_id = 1, acquired = [0], released = [Some 0]\<rparr>)
   \<and> isClosed (sample_Conn\<lparr>closed := 1\<rparr>)
   \<and> WriteAsync sample_Extern (sample_Conn\<lparr>compressEnabled := False, closed := 1\<rparr>) sample_Pool OpcodeBinary
        [1, 2, 3, 4, 5, 6, 7, 8, 9] =
       (Some (StatusCodeErr CloseMessageTooLarge), sample_Conn\<lparr>compressEnabled := False, closed := 1\<rparr>,
        sample_Pool)"
  using oversize_rejected [of OpcodeText sample_Conn "[0x61, 0x62, 0x63, 0x64]"
      "sample_Extern\<lparr>Compress := tripling_Compress\<rparr>" 12 sample_Pool]
    oversize_rejected [of OpcodeBinary "sample_Conn\<lparr>compressEnabled := False\<rparr>" "[1, 2, 3, 4, 5, 6, 7, 8, 9]"
      sample_Extern 9 sample_Pool]
    oversize_rejected [of OpcodeBinary "sample_Conn\<lparr>compressEnabled := False, closed := 1\<rparr>"
      "[1, 2, 3, 4, 5, 6, 7, 8, 9]" sample_Extern 9 sample_Pool]
  by (simp add: finalPayloadSize_def model_defs sample_defs isCont_def tripling_Compress_def)

section \<open>Properties: the compression decision of the frame generator\<close>

text \<open>A text payload of four bytes that is not valid UTF-8, on a connection with compression
  enabled and a threshold of four: the three conditions hold, yet \<^verbatim>\<open>genFrame\<close> returns the
  UnsupportedData error with the pool untouched, which is not what \<^verbatim>\<open>compressData\<close> returns.\<close>

theorem compression_path_counterexample:
  "compressEnabled sample_Conn \<and> isDataFrame OpcodeText
   \<and> CompressThreshold (config sample_Conn) \<le> int (length [0xFF, 0xFF, 0xFF, 0xFF :: byte])
   \<and> genFrame sample_Extern sample_Conn sample_Pool OpcodeText [0xFF, 0xFF, 0xFF, 0xFF] =
       (Inl (InternalError CloseUnsupportedData ErrTextEncoding), sample_Pool)
   \<and> genFrame sample_Extern sample_Conn sample_Pool OpcodeText [0xFF, 0xFF, 0xFF, 0xFF] \<noteq>
       compressData sample_Extern sample_Conn sample_Pool OpcodeText [0xFF, 0xFF, 0xFF, 0xFF]"
  by (simp add: model_defs sample_defs)


lemma GenerateHeader_first:
  "\<exists>rest. fst (GenerateHeader key srv True cmp opcode n) =
     (0x80 OR (if cmp \<and> isDataFrame opcode then 0x40 else 0) OR opcode_byte opcode) # rest"
  by (simp add: GenerateHeader_def Let_def split: prod.splits)

lemma RSV1_bit_set: "isDataFrame opcode \<Longrightarrow> (0x80 OR 0x40 OR opcode_byte opcode) AND 0x40 = 0x40"
  by (cases opcode) (simp_all add: opcode_byte_def)

lemma RSV1_bit_clear: "(0x80 OR 0 OR opcode_byte opcode) AND 0x40 \<noteq> 0x40"
  by (cases opcode) (simp_all add: opcode_byte_def)

lemma RSV1_compressed:
  assumes "isDataFrame opcode"
  shows "RSV1 (buf\<lparr>contents := fst (GenerateHeader key srv True True opcode n) @ body\<rparr>)"
proof -
  obtain rest where "fst (GenerateHeader key srv True True opcode n) =
     (0x80 OR (if True \<and> isDataFrame opcode then 0x40 else 0) OR opcode_byte opcode) # rest"
    using GenerateHeader_first by blast
  with assms show ?thesis by (simp add: RSV1_def RSV1_bit_set)
qed

lemma RSV1_plain:
  "\<not> RSV1 (buf\<lparr>contents := fst (GenerateHeader key srv True False opcode n) @ body\<rparr>)"
proof -
  obtain rest where "fst (GenerateHeader key srv True False opcode n) =
     (0x80 OR (if False \<and> isDataFrame opcode then 0x40 else 0) OR opcode_byte opcode) # rest"
    using GenerateHeader_first by blast
  then show ?thesis using RSV1_bit_clear [of opcode] by (simp add: RSV1_def)
qed


lemma compressData_RSV1:
  assumes "isDataFrame opcode" and "fst (compressData x c p opcode payload) = Inr (f, i)"
  shows "RSV1 f"
proof (cases "Compress x payload")
  case (Inl err)
  with assms(2) show ?thesis by (simp add: compressData_def Pool_Get_def)
next
  case (Inr out)
  let ?h = "GenerateHeader (maskKey x) (isServer c) True True opcode (int (length out))"
  let ?body = "if \<not> isServer c then MaskXOR out (snd ?h) else out"
  from assms(2) Inr have "f = \<lparr>buf_id = next_id p, contents = []\<rparr>\<lparr>contents := fst ?h @ ?body\<rparr>"
    by (simp add: compressData_def Pool_Get_def Let_def frameHeaderSize_def split_beta
        split: if_splits)
  then show ?thesis by (simp only: RSV1_compressed [OF assms(1)])
qed

lemma genFrame_plain_RSV1:
  assumes "\<not> (compressEnabled c \<and> isDataFrame opcode \<and> CompressThreshold (config c) \<le> int (length payload))"
    and "fst (genFrame x c p opcode payload) = Inr (f, i)"
  shows "\<not> RSV1 f"
proof -
  let ?h = "GenerateHeader (maskKey x) (isServer c) True False opcode (int (length payload))"
  let ?body = "if \<not> isServer c then MaskXOR payload (snd ?h) else payload"
  from assms have "f = \<lparr>buf_id = next_id p, contents = []\<rparr>\<lparr>contents := fst ?h @ ?body\<rparr>"
    by (simp add: genFrame_def Pool_Get_def Let_def split_beta split: if_splits)
  then show ?thesis by (simp only: RSV1_plain not_False_eq_True)
qed

lemma genFrame_plain_compressor:
  assumes nc: "\<not> (compressEnabled c \<and> isDataFrame opcode \<and> CompressThreshold (config c) \<le> int (length payload))"
  shows "genFrame (x\<lparr>Compress := k\<rparr>) c p opcode payload = genFrame x c p opcode payload"
proof (cases "opcode = OpcodeText \<and> \<not> isTextValid (config c) opcode payload")
  case True
  show ?thesis unfolding genFrame_def by (simp only: if_P [OF True])
next
  case False
  have nc': "\<not> (compressEnabled c \<and> isDataFrame opcode \<and> int (length payload) \<ge> CompressThreshold (config c))"
    using nc by simp
  have mk: "maskKey (x\<lparr>Compress := k\<rparr>) = maskKey x" by simp
  show ?thesis unfolding genFrame_def
    by (simp only: if_not_P [OF False] if_not_P [OF nc'] mk)
qed

lemma genFrame_compress:
  assumes "opcode = OpcodeText \<longrightarrow> isTextValid (config c) opcode payload"
    and cond: "compressEnabled c \<and> isDataFrame opcode \<and> CompressThreshold (config c) \<le> int (length payload)"
  shows "genFrame x c p opcode payload = compressData x c p opcode payload"
proof -
  from assms(1) have nu: "\<not> (opcode = OpcodeText \<and> \<not> isTextValid (config c) opcode payload)"
    by blast
  from cond have cond': "compressEnabled c \<and> isDataFrame opcode \<and> int (length payload) \<ge> CompressThreshold (config c)"
    by simp
  show ?thesis unfolding genFrame_def by (simp only: if_not_P [OF nu] if_P [OF cond'])
qed

text \<open>Claim C5, as amended. For every write call whose payload passes the UTF-8 check at the head
  of \<^verbatim>\<open>genFrame\<close>: if compression is enabled for the connection, the opcode is a data frame
  opcode and the payload is at least as long as the threshold, \<^verbatim>\<open>genFrame\<close> is \<^verbatim>\<open>compressData\<close>
  and every frame it produces has RSV1 set; otherwise the result does not depend on the
  compressor and every frame it produces has RSV1 clear.\<close>

theorem compression_path:
  assumes "opcode = OpcodeText \<longrightarrow> isTextValid (config c) opcode payload"
  shows "(compressEnabled c \<and> isDataFrame opcode \<and> CompressThreshold (config c) \<le> int (length payload) \<longrightarrow>
            genFrame x c p opcode payload = compressData x c p opcode payload
            \<and> (\<forall>f i. fst (genFrame x c p opcode payload) = Inr (f, i) \<longrightarrow> RSV1 f))
     \<and> (\<not> (compressEnabled c \<and> isDataFrame opcode \<and> CompressThreshold (config c) \<le> int (length payload)) \<longrightarrow>
            genFrame (x\<lparr>Compress := k\<rparr>) c p opcode payload = genFrame x c p opcode payload
            \<and> (\<forall>f i. fst (genFrame x c p opcode payload) = Inr (f, i) \<longrightarrow> \<not> RSV1 f))"
proof (intro conjI impI allI)
  fix f i
  assume cond: "compressEnabled c \<and> isDataFrame opcode \<and> CompressThreshold (config c) \<le> int (length payload)"
    and r: "fst (genFrame x c p opcode payload) = Inr (f, i)"
  from r genFrame_compress [OF assms cond] have "fst (compressData x c p opcode payload) = Inr (f, i)"
    by simp
  with cond show "RSV1 f" using compressData_RSV1 by blast
qed (simp_all add: genFrame_compress [OF assms] genFrame_plain_compressor genFrame_plain_RSV1)

theorem compression_path_witness:
  "isTextValid (config sample_Conn) OpcodeText [0x61, 0x62, 0x63, 0x64]
   \<and> isTextValid (config sample_Conn) OpcodeText [0x61, 0x62, 0x63]
   \<and> CompressThreshold (config sample_Conn) = 4 \<and> compressEnabled sample_Conn
   \<and> fst (genFrame sample_Extern sample_Conn sample_Pool OpcodeText [0x61, 0x62, 0x63, 0x64]) =
       Inr (\<lparr>buf_id = 0, contents = [0xC1, 2, 0x61, 0x62]\<rparr>, 1)
   \<and> RSV1 \<lparr>buf_id = 0, contents = [0xC1, 2, 0x61, 0x62]\<rparr>
   \<and> fst (genFrame sample_Extern sample_Conn sample_Pool OpcodeText [0x61, 0x62, 0x63]) =
       Inr (\<lparr>buf_id = 0, contents = [0x81, 3, 0x61, 0x62, 0x63]\<rparr>, 5)
   \<and> \<not> RSV1 \<lparr>buf_id = 0, contents = [0x81, 3, 0x61, 0x62, 0x63]\<rparr>"
  using compression_path [of OpcodeText sample_Conn "[0x61, 0x62, 0x63, 0x64]" sample_Extern sample_Pool]
    compression_path [of OpcodeText sample_Conn "[0x61, 0x62, 0x63]" sample_Extern sample_Pool]
  by (simp add: RSV1_def model_defs sample_defs isCont_def)

section \<open>Properties: buffers that are not released\<close>

text \<open>Whenever \<^verbatim>\<open>compressData\<close> fails, the buffer it acquired is recorded as acquired and not as
  released; the task of \<^verbatim>\<open>WriteAsync\<close> on a closed connection leaves the pool as it is.\<close>

lemma compressData_error_keeps_buffer:
  "fst (compressData x c p opcode payload) = Inl e \<Longrightarrow>
     acquired (snd (compressData x c p opcode payload)) = acquired p @ [next_id p]
     \<and> released (snd (compressData x c p opcode payload)) = released p"
  by (auto simp: compressData_def Pool_Get_def Let_def split: sum.splits prod.splits if_splits)

lemma runAsyncWrite_closed_keeps_buffer:
  "isClosed c \<Longrightarrow> runAsyncWrite x c p frame index = (c, p)"
  by (simp add: runAsyncWrite_def)

text \<open>Claim C6 does not hold of the code. On the sample connection: \<^verbatim>\<open>compressData\<close> with a
  failing compressor, and with a compressor whose output exceeds the limit, returns its error
  with buffer 0 acquired and never released. \<^verbatim>\<open>WriteAsync\<close> acquires buffer 0 and queues its
  task; \<^verbatim>\<open>WriteClose\<close> then closes the connection (acquiring and releasing buffer 1 for the
  close frame); the queued task, run on the closed connection, returns without releasing
  buffer 0.\<close>

theorem buffer_not_released:
  "compressData (sample_Extern\<lparr>Compress := failing_Compress\<rparr>) sample_Conn sample_Pool OpcodeBinary [1, 2, 3, 4] =
     (Inl (ErrorString []), \<lparr>next_id = 1, acquired = [0], released = []\<rparr>)
   \<and> compressData (sample_Extern\<lparr>Compress := tripling_Compress\<rparr>) sample_Conn sample_Pool OpcodeBinary [1, 2, 3, 4] =
     (Inl (StatusCodeErr CloseMessageTooLarge), \<lparr>next_id = 1, acquired = [0], released = []\<rparr>)
   \<and> WriteAsync sample_Extern sample_Conn sample_Pool OpcodeBinary [0x61] =
     (None, sample_Conn\<lparr>writeQueue := [AsyncWriteTask \<lparr>buf_id = 0, contents = [0x82, 1, 0x61]\<rparr> 3]\<rparr>,
      \<lparr>next_id = 1, acquired = [0], released = []\<rparr>)
   \<and> snd (WriteClose sample_Extern
         (sample_Conn\<lparr>writeQueue := [AsyncWriteTask \<lparr>buf_id = 0, contents = [0x82, 1, 0x61]\<rparr> 3]\<rparr>)
         \<lparr>next_id = 1, acquired = [0], released = []\<rparr> 1000 []) =
       \<lparr>next_id = 2, acquired = [0, 1], released = [Some 1]\<rparr>
   \<and> isClosed (fst (WriteClose sample_Extern
         (sample_Conn\<lparr>writeQueue := [AsyncWriteTask \<lparr>buf_id = 0, contents = [0x82, 1, 0x61]\<rparr> 3]\<rparr>)
         \<lparr>next_id = 1, acquired = [0], released = []\<rparr> 1000 []))
   \<and> snd (runAsyncWrite sample_Extern
         (fst (WriteClose sample_Extern
           (sample_Conn\<lparr>writeQueue := [AsyncWriteTask \<lparr>buf_id = 0, contents = [0x82, 1, 0x61]\<rparr> 3]\<rparr>)
           \<lparr>next_id = 1, acquired = [0], released = []\<rparr> 1000 []))
         \<lparr>next_id = 2, acquired = [0, 1], released = [Some 1]\<rparr>
         \<lparr>buf_id = 0, contents = [0x82, 1, 0x61]\<rparr> 3) =
       \<lparr>next_id = 2, acquired = [0, 1], released = [Some 1]\<rparr>"
  by (simp add: model_defs sample_defs failing_Compress_def tripling_Compress_def)

section \<open>Properties: the broadcaster releases its frames once\<close>

lemma pool_grows_refl: "pool_grows p p"
  by (simp add: pool_grows_def)

lemma pool_grows_trans:
  assumes "pool_grows p q" and "pool_grows q r"
  shows "pool_grows p r"
proof -
  from assms(1) obtain ys where ys: "released q = released p @ ys"
    "list_all (\<lambda>r. case r of None \<Rightarrow> False | Some j \<Rightarrow> next_id p \<le> j \<and> j < next_id q) ys"
    and le1: "next_id p \<le> next_id q"
    by (auto simp: pool_grows_def)
  from assms(2) obtain zs where zs: "released r = released q @ zs"
    "list_all (\<lambda>s. case s of None \<Rightarrow> False | Some j \<Rightarrow> next_id q \<le> j \<and> j < next_id r) zs"
    and le2: "next_id q \<le> next_id r"
    by (auto simp: pool_grows_def)
  have "list_all (\<lambda>s. case s of None \<Rightarrow> False | Some j \<Rightarrow> next_id p \<le> j \<and> j < next_id r) (ys @ zs)"
    using ys(2) zs(2) le1 le2 by (auto simp: list_all_iff split: option.splits)
  with ys(1) zs(1) le1 le2 show ?thesis
    unfolding pool_grows_def by (intro conjI exI [of _ "ys @ zs"]) simp_all
qed

lemma pool_grows_ok:
  assumes "pool_grows p p'" and "pool_ok p"
  shows "pool_ok p'"
  using assms by (auto simp: pool_grows_def pool_ok_def list_all_iff split: option.splits)

lemma pool_grows_times_released:
  assumes "pool_grows p p'" and "buf_id f < next_id p"
  shows "times_released p' f = times_released p f"
proof -
  from assms(1) obtain ys where ys: "released p' = released p @ ys"
    "list_all (\<lambda>r. case r of None \<Rightarrow> False | Some j \<Rightarrow> next_id p \<le> j \<and> j < next_id p') ys"
    by (auto simp: pool_grows_def)
  from ys(2) assms(2) have "Some (buf_id f) \<notin> set ys"
    by (auto simp: list_all_iff split: option.splits)
  then have "count_list ys (Some (buf_id f)) = 0" by (simp add: count_list_0_iff)
  with ys(1) show ?thesis by (simp add: times_released_def)
qed

lemma pool_ok_fresh:
  assumes "pool_ok p" and "buf_id f = next_id p"
  shows "times_released p f = 0"
  using assms by (auto simp: pool_ok_def times_released_def list_all_iff count_list_0_iff split: option.splits)

lemma genFrame_pool:
  assumes "genFrame x c p opcode payload = (r, p')"
  shows "released p' = released p \<and> next_id p \<le> next_id p'
     \<and> (\<forall>f i. r = Inr (f, i) \<longrightarrow> buf_id f = next_id p \<and> next_id p' = Suc (next_id p))"
  using assms
  by (auto simp: genFrame_def compressData_def Pool_Get_def Let_def
      split: if_splits sum.splits prod.splits)

lemma genFrame_pool_grows:
  assumes "genFrame x c p opcode payload = (r, p')"
  shows "pool_grows p p'"
  using genFrame_pool [OF assms] by (simp add: pool_grows_def)

lemma doWrite_pool_grows:
  assumes "doWrite x c p opcode payload = (err, c', p')"
  shows "pool_grows p p'"
proof (cases "genFrame x c p opcode payload")
  case (Pair r q)
  note g = genFrame_pool [OF Pair]
  show ?thesis
  proof (cases r)
    case (Inl e)
    with Pair assms g show ?thesis by (simp add: doWrite_def pool_grows_def)
  next
    case (Inr fi)
    obtain f i where fi: "fi = (f, i)" by (cases fi)
    from Pair Inr fi assms have "p' = Pool_Put q (Some f) i"
      by (auto simp: doWrite_def split: prod.splits)
    with g Inr fi show ?thesis
      by (simp add: pool_grows_def Pool_Put_def)
  qed
qed

lemma emitError_pool_grows:
  assumes "emitError x c p err = (c', p')"
  shows "pool_grows p p'"
proof (cases "\<exists>e. err = Some e \<and> closed c = 0")
  case True
  then obtain e where e: "err = Some e" "closed c = 0" by blast
  obtain werr c1 p1 where d: "doWrite x (c\<lparr>closed := 1\<rparr>) p OpcodeCloseConnection (emitError_content x e) = (werr, c1, p1)"
    by (metis prod_cases3)
  from assms e d have "p' = p1"
    by (auto simp: emitError_def CompareAndSwap_closed_def split: prod.splits)
  with doWrite_pool_grows [OF d] show ?thesis by simp
next
  case False
  with assms have "p' = p"
    by (auto simp: emitError_def CompareAndSwap_closed_def split: option.splits)
  then show ?thesis by (simp add: pool_grows_refl)
qed

lemma doWrite_writeQueue:
  "doWrite x c p opcode payload = (err, c', p') \<Longrightarrow> writeQueue c' = writeQueue c"
  by (auto simp: doWrite_def split: prod.splits sum.splits)

lemma emitError_writeQueue:
  assumes "emitError x c p err = (c', p')"
  shows "writeQueue c' = writeQueue c"
proof (cases "\<exists>e. err = Some e \<and> closed c = 0")
  case True
  then obtain e where e: "err = Some e" "closed c = 0" by blast
  obtain werr c1 p1 where d: "doWrite x (c\<lparr>closed := 1\<rparr>) p OpcodeCloseConnection (emitError_content x e) = (werr, c1, p1)"
    by (metis prod_cases3)
  from assms e d doWrite_writeQueue [OF d] show ?thesis
    by (auto simp: emitError_def CompareAndSwap_closed_def split: prod.splits)
next
  case False
  with assms have "c' = c"
    by (auto simp: emitError_def CompareAndSwap_closed_def split: option.splits)
  then show ?thesis by simp
qed

lemma AddInt64_exact:
  assumes "- (2 ^ 63) \<le> v + d" and "v + d < 2 ^ 63"
  shows "AddInt64 v d = v + d"
proof -
  have "(v + d + 2 ^ 63) mod 2 ^ 64 = v + d + 2 ^ 63"
    using assms by (intro mod_pos_pos_trivial) simp_all
  then show ?thesis by (simp add: AddInt64_def)
qed

lemma length2_cases:
  assumes "length (xs :: 'a list) = 2"
  obtains a b where "xs = [a, b]"
  using assms by (cases xs; cases "tl xs") auto

lemma Broadcast_effect:
  assumes B: "Broadcast x b s p = (err, b', s', p')" and len: "length (bc_msgs b) = 2"
  shows "length (bc_msgs b') = 2 \<and> released p' = released p \<and> next_id p \<le> next_id p'
     \<and> (cached_frames b' = cached_frames b
          \<or> (\<exists>f. buf_id f = next_id p \<and> next_id p' = Suc (next_id p)
                \<and> set (cached_frames b') = insert f (set (cached_frames b))
                \<and> (distinct (map buf_id (cached_frames b)) \<and> (\<forall>g \<in> set (cached_frames b). buf_id g < next_id p)
                      \<longrightarrow> distinct (map buf_id (cached_frames b')))))
     \<and> ((s' = s \<and> bc_state b' = bc_state b)
          \<or> (\<exists>f \<in> set (cached_frames b'). s' = s\<lparr>writeQueue := writeQueue s @ [BroadcastTask f]\<rparr>
                \<and> bc_state b' = AddInt64 (bc_state b) 1))"
proof -
  from len obtain m0 m1 where ms: "bc_msgs b = [m0, m1]" by (rule length2_cases)
  let ?idx = "if compressEnabled s then 1 else 0 :: nat"
  show ?thesis
  proof (cases "bc_msgs b ! ?idx")
    case (Some m)
    with B ms show ?thesis
      by (cases "compressEnabled s")
         (auto simp: Broadcast_def Let_def cached_frames_def item_frames_def
           split: option.splits)
  next
    case None
    obtain r q where g: "genFrame x s p (bc_opcode b) (bc_payload b) = (r, q)"
      by (cases "genFrame x s p (bc_opcode b) (bc_payload b)")
    note gp = genFrame_pool [OF g]
    show ?thesis
    proof (cases r)
      case (Inl e)
      with B ms None g gp show ?thesis
        by (cases "compressEnabled s")
           (auto simp: Broadcast_def Let_def cached_frames_def item_frames_def)
    next
      case (Inr fi)
      obtain f i where fi: "fi = (f, i)" by (cases fi)
      from gp Inr fi have id: "buf_id f = next_id p" and nx: "next_id q = Suc (next_id p)"
        and rl: "released q = released p" by simp_all
      show ?thesis
      proof (cases "compressEnabled s")
        case True
        with None ms have m1: "m1 = None" by simp
        from B ms None g Inr fi True have
          "b' = b\<lparr>bc_msgs := [m0, Some \<lparr>msg_err = None, msg_index = i, msg_frame = Some f\<rparr>],
                  bc_state := AddInt64 (bc_state b) 1\<rparr>"
          "s' = s\<lparr>writeQueue := writeQueue s @ [BroadcastTask f]\<rparr>" "p' = q"
          by (simp_all add: Broadcast_def Let_def)
        with ms m1 id nx rl show ?thesis
          by (auto simp: cached_frames_def item_frames_def split: option.splits intro!: exI [of _ f])
      next
        case False
        with None ms have m0: "m0 = None" by simp
        from B ms None g Inr fi False have
          "b' = b\<lparr>bc_msgs := [Some \<lparr>msg_err = None, msg_index = i, msg_frame = Some f\<rparr>, m1],
                  bc_state := AddInt64 (bc_state b) 1\<rparr>"
          "s' = s\<lparr>writeQueue := writeQueue s @ [BroadcastTask f]\<rparr>" "p' = q"
          by (simp_all add: Broadcast_def Let_def)
        with ms m0 id nx rl show ?thesis
          by (auto simp: cached_frames_def item_frames_def split: option.splits intro!: exI [of _ f])
      qed
    qed
  qed
qed

lemma doClose_effect:
  assumes len: "length (bc_msgs b) = 2"
    and dist: "distinct (map buf_id (cached_frames b))"
    and below: "\<forall>f \<in> set (cached_frames b). buf_id f < next_id p"
    and ok: "pool_ok p"
  shows "next_id (doClose b p) = next_id p \<and> pool_ok (doClose b p)
     \<and> (\<forall>f \<in> set (cached_frames b). times_released (doClose b p) f = Suc (times_released p f))"
proof -
  from len obtain m0 m1 where ms: "bc_msgs b = [m0, m1]" by (rule length2_cases)
  show ?thesis
    using ms dist below ok
    by (auto simp: doClose_def Pool_Put_def cached_frames_def item_frames_def pool_ok_def
        times_released_def split: option.splits)
qed

lemma doClose_msgs_only:
  "bc_msgs b' = bc_msgs b \<Longrightarrow> doClose b' p = doClose b p"
  by (simp add: doClose_def)

lemma runBroadcastWrite_effect:
  assumes "runBroadcastWrite x b s p f = (b', s', p')"
  shows "bc_msgs b' = bc_msgs b \<and> bc_state b' = AddInt64 (bc_state b) (- 1)
     \<and> writeQueue s' = writeQueue s
     \<and> (\<exists>q. pool_grows p q \<and> p' = (if bc_state b' = 0 then doClose b q else q))"
proof (cases "isClosed s")
  case True
  with assms show ?thesis
    by (auto simp: runBroadcastWrite_def Let_def doClose_def pool_grows_refl split: if_splits
        intro!: exI [of _ p])
next
  case False
  obtain err nc where wn: "WriteN (conn s) (contents f) = (err, nc)"
    by (cases "WriteN (conn s) (contents f)")
  obtain s1 q where e: "emitError x (s\<lparr>conn := nc\<rparr>) p err = (s1, q)"
    by (cases "emitError x (s\<lparr>conn := nc\<rparr>) p err")
  from emitError_pool_grows [OF e] emitError_writeQueue [OF e] False wn e assms
  show ?thesis
    by (auto simp: runBroadcastWrite_def Let_def doClose_def split: if_splits intro!: exI [of _ q])
qed

lemma Release_effect:
  "Release b p = (b', p') \<Longrightarrow>
     bc_msgs b' = bc_msgs b \<and> bc_state b' = AddInt64 (bc_state b) (- MaxInt32)
     \<and> p' = (if bc_state b' = 0 then doClose b p else p)"
  by (auto simp: Release_def Let_def doClose_def split: if_splits)

lemma cached_frames_msgs: "bc_msgs b' = bc_msgs b \<Longrightarrow> cached_frames b' = cached_frames b"
  by (simp add: cached_frames_def)

lemma sum_list_update_nat:
  "i < length xs \<Longrightarrow> sum_list (xs[i := v]) + xs ! i = sum_list xs + (v :: nat)"
  by (induction xs arbitrary: i) (auto split: nat.splits)

lemma pending_update:
  assumes "i < length (w_conns w)" and "w_conns w' = (w_conns w)[i := c']"
  shows "pending w' + length (writeQueue (w_conns w ! i)) = pending w + length (writeQueue c')"
proof -
  let ?g = "\<lambda>c. length (writeQueue c)"
  have "map ?g ((w_conns w)[i := c']) = (map ?g (w_conns w))[i := ?g c']"
    by (simp add: map_update)
  moreover have "sum_list ((map ?g (w_conns w))[i := ?g c']) + (map ?g (w_conns w)) ! i
      = sum_list (map ?g (w_conns w)) + ?g c'"
    using assms(1) by (intro sum_list_update_nat) simp
  ultimately show ?thesis using assms by (simp add: pending_def)
qed

lemma bc_inv_mono: "bc_inv r n w \<Longrightarrow> bc_inv r (Suc n) w"
  by (simp add: bc_inv_def)

lemma MaxInt32_pos: "0 < MaxInt32"
  by (simp add: MaxInt32_def)

lemma tasks_cached_step:
  assumes "tasks_cached w"
    and "set (cached_frames (w_bc w)) \<subseteq> set (cached_frames (w_bc w'))"
    and "\<And>c t. c \<in> set (w_conns w') \<Longrightarrow> t \<in> set (writeQueue c) \<Longrightarrow>
           (\<exists>c0 \<in> set (w_conns w). t \<in> set (writeQueue c0))
           \<or> (\<exists>f \<in> set (cached_frames (w_bc w')). t = BroadcastTask f)"
  shows "tasks_cached w'"
  unfolding tasks_cached_def
proof (intro ballI)
  fix c t assume "c \<in> set (w_conns w')" and "t \<in> set (writeQueue c)"
  from assms(3) [OF this] show "\<exists>f \<in> set (cached_frames (w_bc w')). t = BroadcastTask f"
  proof
    assume "\<exists>c0 \<in> set (w_conns w). t \<in> set (writeQueue c0)"
    with assms(1) obtain f where "f \<in> set (cached_frames (w_bc w))" "t = BroadcastTask f"
      unfolding tasks_cached_def by blast
    with assms(2) show ?thesis by blast
  qed
qed

lemma in_set_update:
  assumes "c \<in> set (xs[i := y])"
  shows "c \<in> set xs \<or> c = y"
  using assms set_update_subset_insert [of xs i y] by auto

lemma broadcast_step_inv:
  assumes inv: "bc_inv False n w" and bound: "int n + MaxInt32 + 1 < 2 ^ 63"
  shows "bc_inv False (Suc n) (step x (DoBroadcast i) w)"
proof (cases "i < length (w_conns w)")
  case False
  with inv show ?thesis by (simp add: bc_inv_mono)
next
  case True
  let ?b = "w_bc w" and ?s = "w_conns w ! i" and ?p = "w_pool w"
  obtain err b' s' p' where B: "Broadcast x ?b ?s ?p = (err, b', s', p')"
    by (metis prod_cases4)
  let ?w' = "w\<lparr>w_bc := b', w_conns := (w_conns w)[i := s'], w_pool := p'\<rparr>"
  have w': "step x (DoBroadcast i) w = ?w'" using True B by simp
  from inv have len: "length (bc_msgs ?b) = 2"
    and st: "bc_state ?b = MaxInt32 + int (pending w)"
    and pn: "pending w \<le> n"
    and tc: "tasks_cached w"
    and below: "\<forall>f \<in> set (cached_frames ?b). buf_id f < next_id ?p"
    and dist: "distinct (map buf_id (cached_frames ?b))"
    and ok: "pool_ok ?p"
    and rel: "\<forall>f \<in> set (cached_frames ?b). times_released ?p f = 0"
    by (simp_all add: bc_inv_def)
  note eff = Broadcast_effect [OF B len]
  from eff have len': "length (bc_msgs b') = 2" and relp: "released p' = released ?p"
    and nid: "next_id ?p \<le> next_id p'" by simp_all
  from eff have frames: "cached_frames b' = cached_frames ?b
          \<or> (\<exists>f. buf_id f = next_id ?p \<and> next_id p' = Suc (next_id ?p)
                \<and> set (cached_frames b') = insert f (set (cached_frames ?b))
                \<and> distinct (map buf_id (cached_frames b')))"
    using dist below by blast
  from eff have queue: "(s' = ?s \<and> bc_state b' = bc_state ?b)
          \<or> (\<exists>f \<in> set (cached_frames b'). s' = ?s\<lparr>writeQueue := writeQueue ?s @ [BroadcastTask f]\<rparr>
                \<and> bc_state b' = AddInt64 (bc_state ?b) 1)" by simp
  have sub: "set (cached_frames ?b) \<subseteq> set (cached_frames b')" using frames by auto
  have ok': "pool_ok p'" using ok relp nid
    by (auto simp: pool_ok_def list_all_iff split: option.splits)
  have below': "\<forall>f \<in> set (cached_frames b'). buf_id f < next_id p'"
    using frames below nid by (fastforce simp: less_Suc_eq)
  have dist': "distinct (map buf_id (cached_frames b'))" using frames dist by auto
  have rel': "\<forall>f \<in> set (cached_frames b'). times_released p' f = 0"
  proof
    fix f assume f: "f \<in> set (cached_frames b')"
    have same: "times_released p' f = times_released ?p f" using relp by (simp add: times_released_def)
    from frames f rel have "f \<in> set (cached_frames ?b) \<or> buf_id f = next_id ?p" by auto
    then show "times_released p' f = 0"
      using rel pool_ok_fresh [OF ok] same by auto
  qed
  have pu: "pending ?w' + length (writeQueue ?s) = pending w + length (writeQueue s')"
    by (rule pending_update [OF True]) simp
  from queue show ?thesis
  proof
    assume same: "s' = ?s \<and> bc_state b' = bc_state ?b"
    then have pend: "pending ?w' = pending w" using pu by simp
    have tc': "tasks_cached ?w'"
    proof (rule tasks_cached_step [OF tc])
      show "set (cached_frames (w_bc w)) \<subseteq> set (cached_frames (w_bc ?w'))" using sub by simp
    next
      fix c t assume c: "c \<in> set (w_conns ?w')" and t: "t \<in> set (writeQueue c)"
      from c have "c \<in> set (w_conns w) \<or> c = s'" using in_set_update [of c "w_conns w" i s'] by simp
      moreover have "?s \<in> set (w_conns w)" using True by simp
      ultimately have "c \<in> set (w_conns w)" using same by auto
      with t show "(\<exists>c0 \<in> set (w_conns w). t \<in> set (writeQueue c0))
           \<or> (\<exists>f \<in> set (cached_frames (w_bc ?w')). t = BroadcastTask f)" by blast
    qed
    show ?thesis unfolding w' bc_inv_def
      using len' st pn pend tc' below' dist' ok' rel' same by simp
  next
    assume "\<exists>f \<in> set (cached_frames b'). s' = ?s\<lparr>writeQueue := writeQueue ?s @ [BroadcastTask f]\<rparr>
                \<and> bc_state b' = AddInt64 (bc_state ?b) 1"
    then obtain f where f: "f \<in> set (cached_frames b')"
      and s': "s' = ?s\<lparr>writeQueue := writeQueue ?s @ [BroadcastTask f]\<rparr>"
      and st1: "bc_state b' = AddInt64 (bc_state ?b) 1" by blast
    have pend: "pending ?w' = Suc (pending w)" using pu s' by simp
    have "AddInt64 (bc_state ?b) 1 = bc_state ?b + 1"
      using st pn bound MaxInt32_pos by (intro AddInt64_exact) simp_all
    with st1 st pend have st': "bc_state b' = MaxInt32 + int (pending ?w')" by simp
    have tc': "tasks_cached ?w'"
    proof (rule tasks_cached_step [OF tc])
      show "set (cached_frames (w_bc w)) \<subseteq> set (cached_frames (w_bc ?w'))" using sub by simp
    next
      fix c t assume c: "c \<in> set (w_conns ?w')" and t: "t \<in> set (writeQueue c)"
      from c have "c \<in> set (w_conns w) \<or> c = s'" using in_set_update [of c "w_conns w" i s'] by simp
      moreover have "?s \<in> set (w_conns w)" using True by simp
      ultimately show "(\<exists>c0 \<in> set (w_conns w). t \<in> set (writeQueue c0))
           \<or> (\<exists>f \<in> set (cached_frames (w_bc ?w')). t = BroadcastTask f)"
        using t s' f by auto
    qed
    show ?thesis unfolding w' bc_inv_def
      using len' st' pn pend tc' below' dist' ok' rel' by simp
  qed
qed

lemma release_step_inv:
  assumes inv: "bc_inv False n w" and bound: "int n + MaxInt32 + 1 < 2 ^ 63"
  shows "bc_inv True (Suc n) (step x DoRelease w)"
proof -
  let ?b = "w_bc w" and ?p = "w_pool w"
  obtain b' p' where R: "Release ?b ?p = (b', p')" by (cases "Release ?b ?p")
  let ?w' = "w\<lparr>w_bc := b', w_pool := p'\<rparr>"
  have w': "step x DoRelease w = ?w'" using R by simp
  from inv have len: "length (bc_msgs ?b) = 2"
    and st: "bc_state ?b = MaxInt32 + int (pending w)"
    and pn: "pending w \<le> n"
    and tc: "tasks_cached w"
    and below: "\<forall>f \<in> set (cached_frames ?b). buf_id f < next_id ?p"
    and dist: "distinct (map buf_id (cached_frames ?b))"
    and ok: "pool_ok ?p"
    and rel: "\<forall>f \<in> set (cached_frames ?b). times_released ?p f = 0"
    by (simp_all add: bc_inv_def)
  note eff = Release_effect [OF R]
  from eff have ms: "bc_msgs b' = bc_msgs ?b" by simp
  note cf = cached_frames_msgs [OF ms]
  have "AddInt64 (bc_state ?b) (- MaxInt32) = bc_state ?b + (- MaxInt32)"
    using st pn bound MaxInt32_pos by (intro AddInt64_exact) simp_all
  with eff st have st': "bc_state b' = int (pending w)" by simp
  have pend: "pending ?w' = pending w" by (simp add: pending_def)
  have tc': "tasks_cached ?w'" using tc cf by (simp add: tasks_cached_def)
  note dc = doClose_effect [OF len dist below ok]
  have p': "p' = (if pending w = 0 then doClose ?b ?p else ?p)" using eff st' by simp
  have "\<forall>f \<in> set (cached_frames b'). buf_id f < next_id p'"
    and "pool_ok p'"
    and "\<forall>f \<in> set (cached_frames b'). times_released p' f = (if pending w = 0 then 1 else 0)"
    using p' dc below ok rel cf by auto
  then show ?thesis unfolding w' bc_inv_def
    using ms len st' pn pend tc' dist cf by simp
qed

lemma task_step_inv:
  assumes inv: "bc_inv r n w" and bound: "int n + MaxInt32 + 1 < 2 ^ 63"
  shows "bc_inv r (Suc n) (step x (DoRunTask i) w)"
proof (cases "i < length (w_conns w) \<and> writeQueue (w_conns w ! i) \<noteq> []")
  case False
  then have "step x (DoRunTask i) w = w" by (auto simp: runTask_def)
  with inv show ?thesis by (simp add: bc_inv_mono)
next
  case True
  let ?b = "w_bc w" and ?c = "w_conns w ! i" and ?p = "w_pool w"
  from True obtain t rest where q: "writeQueue ?c = t # rest" by (cases "writeQueue ?c") auto
  from inv have len: "length (bc_msgs ?b) = 2"
    and st: "bc_state ?b = (if r then 0 else MaxInt32) + int (pending w)"
    and pn: "pending w \<le> n"
    and tc: "tasks_cached w"
    and below: "\<forall>f \<in> set (cached_frames ?b). buf_id f < next_id ?p"
    and dist: "distinct (map buf_id (cached_frames ?b))"
    and ok: "pool_ok ?p"
    and rel: "\<forall>f \<in> set (cached_frames ?b). times_released ?p f = (if r \<and> pending w = 0 then 1 else 0)"
    by (simp_all add: bc_inv_def)
  have cin: "?c \<in> set (w_conns w)" using True by simp
  with tc q obtain f where f: "f \<in> set (cached_frames ?b)" and t: "t = BroadcastTask f"
    unfolding tasks_cached_def by fastforce
  let ?s = "?c\<lparr>writeQueue := rest\<rparr>"
  obtain b' s' p' where RB: "runBroadcastWrite x ?b ?s ?p f = (b', s', p')"
    by (metis prod_cases3)
  let ?w' = "w\<lparr>w_bc := b', w_conns := (w_conns w)[i := s'], w_pool := p'\<rparr>"
  have w': "step x (DoRunTask i) w = ?w'" using True q t RB by (simp add: runTask_def)
  note eff = runBroadcastWrite_effect [OF RB]
  from eff have ms: "bc_msgs b' = bc_msgs ?b" and wq: "writeQueue s' = rest" by simp_all
  note cf = cached_frames_msgs [OF ms]
  from eff obtain q0 where q0: "pool_grows ?p q0"
    and p': "p' = (if bc_state b' = 0 then doClose ?b q0 else q0)" by blast
  have "pending ?w' + length (writeQueue ?c) = pending w + length (writeQueue s')"
    by (rule pending_update) (use True in simp_all)
  with q wq have pend: "pending w = Suc (pending ?w')" by simp
  have "AddInt64 (bc_state ?b) (- 1) = bc_state ?b + (- 1)"
    using st pn bound MaxInt32_pos pend by (intro AddInt64_exact) (auto split: if_splits)
  with eff st pend have st': "bc_state b' = (if r then 0 else MaxInt32) + int (pending ?w')" by simp
  have zero: "bc_state b' = 0 \<longleftrightarrow> r \<and> pending ?w' = 0"
    using st' MaxInt32_pos by (auto split: if_splits)
  have tc': "tasks_cached ?w'"
  proof (rule tasks_cached_step [OF tc])
    show "set (cached_frames (w_bc w)) \<subseteq> set (cached_frames (w_bc ?w'))" using cf by simp
  next
    fix c u assume c: "c \<in> set (w_conns ?w')" and u: "u \<in> set (writeQueue c)"
    from c have "c \<in> set (w_conns w) \<or> c = s'" using in_set_update [of c "w_conns w" i s'] by simp
    then have "\<exists>c0 \<in> set (w_conns w). u \<in> set (writeQueue c0)"
    proof
      assume "c \<in> set (w_conns w)"
      with u show ?thesis by blast
    next
      assume "c = s'"
      with u wq q have "u \<in> set (writeQueue ?c)" by simp
      with cin show ?thesis by blast
    qed
    then show "(\<exists>c0 \<in> set (w_conns w). u \<in> set (writeQueue c0))
           \<or> (\<exists>g \<in> set (cached_frames (w_bc ?w')). u = BroadcastTask g)" by blast
  qed
  have ok0: "pool_ok q0" by (rule pool_grows_ok [OF q0 ok])
  have nid: "next_id ?p \<le> next_id q0" using q0 by (simp add: pool_grows_def)
  have below0: "\<forall>g \<in> set (cached_frames ?b). buf_id g < next_id q0" using below nid by fastforce
  have rel0: "\<forall>g \<in> set (cached_frames ?b). times_released q0 g = 0"
  proof
    fix g assume g: "g \<in> set (cached_frames ?b)"
    with below have "buf_id g < next_id ?p" by blast
    from pool_grows_times_released [OF q0 this] rel g pend show "times_released q0 g = 0" by simp
  qed
  note dc = doClose_effect [OF len dist below0 ok0]
  have "(\<forall>g \<in> set (cached_frames b'). buf_id g < next_id p')
    \<and> pool_ok p'
    \<and> (\<forall>g \<in> set (cached_frames b'). times_released p' g = (if bc_state b' = 0 then 1 else 0))"
  proof (cases "bc_state b' = 0")
    case True
    with p' have "p' = doClose ?b q0" by simp
    with True dc rel0 below0 cf show ?thesis by simp
  next
    case False
    with p' have "p' = q0" by simp
    with False below0 ok0 rel0 cf show ?thesis by simp
  qed
  then show ?thesis unfolding w' bc_inv_def
    using ms len st' pn pend tc' dist cf zero by simp
qed

lemma run_inv:
  assumes "bc_inv r n w" and "protocol r acts" and "int n + int (length acts) + MaxInt32 < 2 ^ 63"
  shows "bc_inv (r \<or> DoRelease \<in> set acts) (n + length acts) (fold (step x) acts w)"
  using assms
proof (induction acts arbitrary: r n w)
  case Nil
  then show ?case by simp
next
  case (Cons a acts)
  from Cons.prems(3) have b1: "int n + MaxInt32 + 1 < 2 ^ 63"
    and b2: "int (Suc n) + int (length acts) + MaxInt32 < 2 ^ 63" by simp_all
  show ?case
  proof (cases a)
    case (DoBroadcast i)
    with Cons.prems(2) have r: "\<not> r" and pr: "protocol False acts" by auto
    from Cons.prems(1) r have "bc_inv False (Suc n) (step x (DoBroadcast i) w)"
      using broadcast_step_inv [OF _ b1] by simp
    from Cons.IH [OF this pr b2] r DoBroadcast show ?thesis by simp
  next
    case (DoRunTask i)
    with Cons.prems(2) have pr: "protocol r acts" by simp
    have "bc_inv r (Suc n) (step x (DoRunTask i) w)"
      by (rule task_step_inv [OF Cons.prems(1) b1])
    from Cons.IH [OF this pr b2] DoRunTask show ?thesis by simp
  next
    case DoRelease
    with Cons.prems(2) have r: "\<not> r" and pr: "protocol True acts" by auto
    from Cons.prems(1) r have "bc_inv True (Suc n) (step x DoRelease w)"
      using release_step_inv [OF _ b1] by simp
    from Cons.IH [OF this pr b2] DoRelease show ?thesis by simp
  qed
qed

lemma start_inv:
  assumes "list_all (\<lambda>c. writeQueue c = []) cs" and "pool_ok p"
  shows "bc_inv False 0 (start opcode payload cs p)"
proof -
  from assms(1) have "sum_list (map (\<lambda>c. length (writeQueue c)) cs) = 0"
    by (induction cs) simp_all
  with assms show ?thesis
    by (simp add: bc_inv_def start_def NewBroadcaster_def pending_def tasks_cached_def
        cached_frames_def item_frames_def list_all_iff)
qed

text \<open>Claim C7. Take a broadcaster fresh from \<^verbatim>\<open>NewBroadcaster\<close> (counter at the sentinel),
  connections with empty write queues and a pool in order, and let \<^verbatim>\<open>Broadcast\<close> calls, task
  runs and \<^verbatim>\<open>Release\<close> follow one another in any order that respects the use the spec asks
  for (one \<^verbatim>\<open>Release\<close> at most, no \<^verbatim>\<open>Broadcast\<close> after it), short enough for the 64-bit counter.
  Then at every moment the counter is the number of pending broadcast writes, plus the sentinel
  as long as \<^verbatim>\<open>Release\<close> has not been called; and every cached frame has been given back to
  the pool exactly once if \<^verbatim>\<open>Release\<close> has been called and no broadcast write is pending, and
  not at all otherwise.\<close>

theorem broadcaster_release:
  assumes "protocol False acts" and "list_all (\<lambda>c. writeQueue c = []) cs" and "pool_ok p"
    and "int (length acts) < 2 ^ 62"
  shows "let w = fold (step x) acts (start opcode payload cs p) in
     bc_state (w_bc w) = (if DoRelease \<in> set acts then 0 else MaxInt32) + int (pending w)
     \<and> (\<forall>f \<in> set (cached_frames (w_bc w)).
           times_released (w_pool w) f = (if DoRelease \<in> set acts \<and> pending w = 0 then 1 else 0))"
proof -
  have "int 0 + int (length acts) + MaxInt32 < 2 ^ 63"
    using assms(4) by (simp add: MaxInt32_def)
  from run_inv [OF start_inv [OF assms(2,3)] assms(1) this, where x = x and opcode1 = opcode and payload1 = payload]
  show ?thesis by (simp add: bc_inv_def Let_def)
qed

lemma sample_run_result:
  "fold (step sample_Extern) sample_run sample_start =
     \<lparr>w_bc = \<lparr>bc_opcode = OpcodeText, bc_payload = [0x61, 0x62, 0x63, 0x64],
        bc_msgs = [Some \<lparr>msg_err = None, msg_index = 6,
                      msg_frame = Some \<lparr>buf_id = 1, contents = [0x81, 4, 0x61, 0x62, 0x63, 0x64]\<rparr>\<rparr>,
                   Some \<lparr>msg_err = None, msg_index = 1,
                      msg_frame = Some \<lparr>buf_id = 0, contents = [0xC1, 2, 0x61, 0x62]\<rparr>\<rparr>],
        bc_state = 0\<rparr>,
      w_conns = [sample_Conn\<lparr>conn := \<lparr>written = [[0xC1, 2, 0x61, 0x62]], deadlines = 0, outcomes = []\<rparr>\<rparr>,
                 sample_Conn\<lparr>compressEnabled := False,
                   conn := \<lparr>written = [[0x81, 4, 0x61, 0x62, 0x63, 0x64]], deadlines = 0, outcomes = []\<rparr>\<rparr>,
                 sample_Conn\<lparr>conn := \<lparr>written = [[0xC1, 2, 0x61, 0x62]], deadlines = 0, outcomes = []\<rparr>\<rparr>,
                 sample_Conn\<lparr>closed := 1\<rparr>],
      w_pool = \<lparr>next_id = 2, acquired = [0, 1], released = [Some 1, Some 0]\<rparr>\<rparr>"
  by (simp add: sample_run_def sample_start_def start_def NewBroadcaster_def runTask_def
      Broadcast_def runBroadcastWrite_def Release_def doClose_def AddInt64_def MaxInt32_def
      model_defs sample_defs isCont_def Let_def)

theorem broadcaster_release_witness:
  "protocol False sample_run \<and> pool_ok sample_Pool \<and> DoRelease \<in> set sample_run
   \<and> pending (fold (step sample_Extern) sample_run sample_start) = 0
   \<and> map (times_released (w_pool (fold (step sample_Extern) sample_run sample_start)))
        (cached_frames (w_bc (fold (step sample_Extern) sample_run sample_start))) = [1, 1]
   \<and> bc_state (w_bc (fold (step sample_Extern) sample_run sample_start)) = 0"
proof -
  have h1: "protocol False sample_run" by (simp add: sample_run_def)
  have h2: "list_all (\<lambda>c. writeQueue c = [])
      [sample_Conn, sample_Conn\<lparr>compressEnabled := False\<rparr>, sample_Conn, sample_Conn\<lparr>closed := 1\<rparr>]"
    by (simp add: sample_Conn_def)
  have h3: "pool_ok sample_Pool" by (simp add: pool_ok_def sample_Pool_def)
  have h4: "int (length sample_run) < 2 ^ 62" by (simp add: sample_run_def)
  have h5: "DoRelease \<in> set sample_run" by (simp add: sample_run_def)
  from broadcaster_release [OF h1 h2 h3 h4, of sample_Extern OpcodeText "[0x61, 0x62, 0x63, 0x64]"]
  have "let w = fold (step sample_Extern) sample_run sample_start in
     bc_state (w_bc w) = (if DoRelease \<in> set sample_run then 0 else MaxInt32) + int (pending w)
     \<and> (\<forall>f \<in> set (cached_frames (w_bc w)).
           times_released (w_pool w) f = (if DoRelease \<in> set sample_run \<and> pending w = 0 then 1 else 0))"
    by (simp only: sample_start_def)
  with h1 h3 h5 show ?thesis
    by (simp add: sample_run_result pending_def cached_frames_def item_frames_def Let_def)
qed

end
